theory Spec2Isabelle
  imports Main "HOL-Library.Word" "HOL-Library.Char_ord"
begin

unbundle bit_operations_syntax

section \<open>Library functions used by the backend\<close>

text \<open>
  The file-system backend of \<^verbatim>\<open>edgedb/lang/common/fs/backends.py\<close> derives its
  paths with \<^verbatim>\<open>hashlib.md5\<close>, \<^verbatim>\<open>base64.b32encode\<close>, \<^verbatim>\<open>uuid.UUID\<close> and
  \<^verbatim>\<open>os.path\<close> (POSIX flavour). These are modelled first, as executable functions.

  Strings are HOL strings. A \<^typ>\<open>char\<close> stands for a code point below 256, so
  \<^term>\<open>length\<close> counts what Python's \<^verbatim>\<open>len\<close> counts on such strings.
\<close>

type_synonym byte = "8 word"
type_synonym u32 = "32 word"

subsection \<open>MD5 (RFC 1321)\<close>

definition md5_s :: "nat list" where
  "md5_s = concat (map (\<lambda>r. concat (replicate 4 r))
     [[7, 12, 17, 22], [5, 9, 14, 20], [4, 11, 16, 23], [6, 10, 15, 21]])"

definition md5_K :: "u32 list" where
  "md5_K =
   [0xd76aa478, 0xe8c7b756, 0x242070db, 0xc1bdceee,
    0xf57c0faf, 0x4787c62a, 0xa8304613, 0xfd469501,
    0x698098d8, 0x8b44f7af, 0xffff5bb1, 0x895cd7be,
    0x6b901122, 0xfd987193, 0xa679438e, 0x49b40821,
    0xf61e2562, 0xc040b340, 0x265e5a51, 0xe9b6c7aa,
    0xd62f105d, 0x02441453, 0xd8a1e681, 0xe7d3fbc8,
    0x21e1cde6, 0xc33707d6, 0xf4d50d87, 0x455a14ed,
    0xa9e3e905, 0xfcefa3f8, 0x676f02d9, 0x8d2a4c8a,
    0xfffa3942, 0x8771f681, 0x6d9d6122, 0xfde5380c,
    0xa4beea44, 0x4bdecfa9, 0xf6bb4b60, 0xbebfbc70,
    0x289b7ec6, 0xeaa127fa, 0xd4ef3085, 0x04881d05,
    0xd9d4d039, 0xe6db99e5, 0x1fa27cf8, 0xc4ac5665,
    0xf4292244, 0x432aff97, 0xab9423a7, 0xfc93a039,
    0x655b59c3, 0x8f0ccc92, 0xffeff47d, 0x85845dd1,
    0x6fa87e4f, 0xfe2ce6e0, 0xa3014314, 0x4e0811a1,
    0xf7537e82, 0xbd3af235, 0x2ad7d2bb, 0xeb86d391]"

definition rotl32 :: "u32 \<Rightarrow> nat \<Rightarrow> u32" where
  "rotl32 x n = push_bit n x OR drop_bit (32 - n) x"

text \<open>Little-endian conversions between words and bytes.\<close>

definition le_word :: "byte list \<Rightarrow> u32" where
  "le_word bs = foldr (\<lambda>b acc. ucast b OR push_bit 8 acc) bs 0"

definition le_bytes32 :: "u32 \<Rightarrow> byte list" where
  "le_bytes32 w = map (\<lambda>i. ucast (drop_bit (8 * i) w)) [0, 1, 2, 3]"

definition le_bytes64 :: "64 word \<Rightarrow> byte list" where
  "le_bytes64 w = map (\<lambda>i. ucast (drop_bit (8 * i) w)) [0, 1, 2, 3, 4, 5, 6, 7]"

definition md5_pad :: "byte list \<Rightarrow> byte list" where
  "md5_pad m =
     m @ [0x80] @ replicate ((119 - length m mod 64) mod 64) 0
       @ le_bytes64 (of_nat (8 * length m))"

fun chunks :: "nat \<Rightarrow> 'a list \<Rightarrow> 'a list list" where
  "chunks n xs =
     (if n = 0 \<or> xs = [] then [] else take n xs # chunks n (drop n xs))"

declare chunks.simps [simp del]

type_synonym md5_state = "u32 \<times> u32 \<times> u32 \<times> u32"

fun md5_step :: "u32 list \<Rightarrow> md5_state \<Rightarrow> nat \<Rightarrow> md5_state" where
  "md5_step M (a, b, c, d) i =
     (let f = (if i < 16 then (b AND c) OR (NOT b AND d)
               else if i < 32 then (d AND b) OR (NOT d AND c)
               else if i < 48 then b XOR c XOR d
               else c XOR (b OR NOT d));
          g = (if i < 16 then i
               else if i < 32 then (5 * i + 1) mod 16
               else if i < 48 then (3 * i + 5) mod 16
               else (7 * i) mod 16);
          f' = f + a + md5_K ! i + M ! g
      in (d, b + rotl32 f' (md5_s ! i), b, c))"

fun md5_block :: "md5_state \<Rightarrow> byte list \<Rightarrow> md5_state" where
  "md5_block (a0, b0, c0, d0) blk =
     (case foldl (md5_step (map le_word (chunks 4 blk))) (a0, b0, c0, d0) [0..<64] of
        (a, b, c, d) \<Rightarrow> (a0 + a, b0 + b, c0 + c, d0 + d))"

definition md5 :: "byte list \<Rightarrow> byte list" where
  "md5 m =
     (case foldl md5_block (0x67452301, 0xefcdab89, 0x98badcfe, 0x10325476)
             (chunks 64 (md5_pad m)) of
        (a, b, c, d) \<Rightarrow> le_bytes32 a @ le_bytes32 b @ le_bytes32 c @ le_bytes32 d)"

subsection \<open>Base-32 (RFC 4648), as \<^verbatim>\<open>base64.b32encode\<close>\<close>

definition b32_alphabet :: string where
  "b32_alphabet = ''ABCDEFGHIJKLMNOPQRSTUVWXYZ234567''"

text \<open>
  One group of at most five bytes becomes eight characters: the bytes are padded with
  zeros to forty bits, cut into eight 5-bit digits, and the digits that carry no input
  bit are replaced by \<^verbatim>\<open>=\<close>.
\<close>

definition b32_group :: "byte list \<Rightarrow> string" where
  "b32_group g =
     (let n = foldl (\<lambda>acc b. push_bit 8 acc OR ucast b) (0 :: 40 word)
                 (g @ replicate (5 - length g) 0);
          digits = map (\<lambda>i. b32_alphabet ! unat (drop_bit (5 * (7 - i)) n AND 31)) [0..<8];
          keep = (8 * length g + 4) div 5
      in take keep digits @ replicate (8 - keep) (CHR ''=''))"

definition b32encode :: "byte list \<Rightarrow> string" where
  "b32encode bs = concat (map b32_group (chunks 5 bs))"

subsection \<open>\<^verbatim>\<open>uuid.UUID\<close>\<close>

text \<open>
  A UUID holds an integer below \<open>2^128\<close>. Its \<^verbatim>\<open>bytes\<close> are the 16 bytes of that
  integer, most significant first; its \<^verbatim>\<open>hex\<close> is the integer as 32 lower-case
  hexadecimal digits.
\<close>

definition uuid_bytes :: "128 word \<Rightarrow> byte list" where
  "uuid_bytes u = map (\<lambda>i. ucast (drop_bit (8 * (15 - i)) u)) [0..<16]"

definition hex_digits :: string where
  "hex_digits = ''0123456789abcdef''"

definition uuid_hex :: "128 word \<Rightarrow> string" where
  "uuid_hex u = map (\<lambda>i. hex_digits ! unat (drop_bit (4 * (31 - i)) u AND 15)) [0..<32]"

subsection \<open>\<^verbatim>\<open>os.path\<close> (posixpath)\<close>

text \<open>
  \<^verbatim>\<open>os.path.join(a, b)\<close>: an absolute \<open>b\<close> discards \<open>a\<close>; otherwise the two are
  concatenated, with a separator unless \<open>a\<close> is empty or already ends with one.
\<close>

definition path_join :: "string \<Rightarrow> string \<Rightarrow> string" where
  "path_join a b =
     (if b \<noteq> [] \<and> hd b = CHR ''/'' then b
      else if a = [] \<or> last a = CHR ''/'' then a @ b
      else a @ ''/'' @ b)"

definition path_join_list :: "string \<Rightarrow> string list \<Rightarrow> string" where
  "path_join_list a ps = foldl path_join a ps"

text \<open>\<^verbatim>\<open>p.rfind('/') + 1\<close>: the length of the part of \<open>p\<close> up to its last separator.\<close>

definition rfind_sep_end :: "string \<Rightarrow> nat" where
  "rfind_sep_end p = length p - length (takeWhile (\<lambda>c. c \<noteq> CHR ''/'') (rev p))"

definition rstrip_char :: "char \<Rightarrow> string \<Rightarrow> string" where
  "rstrip_char x s = rev (dropWhile (\<lambda>c. c = x) (rev s))"

definition dirname :: "string \<Rightarrow> string" where
  "dirname p =
     (let head = take (rfind_sep_end p) p
      in if head \<noteq> [] \<and> head \<noteq> replicate (length head) (CHR ''/'')
         then rstrip_char (CHR ''/'') head else head)"

definition basename :: "string \<Rightarrow> string" where
  "basename p = drop (rfind_sep_end p) p"

section \<open>The backend: names and paths\<close>

subsection \<open>Data\<close>

text \<open>
  The object id argument is an arbitrary Python value; only whether it is a
  \<^verbatim>\<open>uuid.UUID\<close> matters to the code (\<^verbatim>\<open>assert isinstance(id, uuid.UUID)\<close>).
  The assertion is taken as executed, that is, Python runs without \<^verbatim>\<open>-O\<close>.
\<close>

datatype pyval = UUID "128 word" | PyStr string | PyInt int | PyNone

text \<open>A bucket is used only through \<^verbatim>\<open>str(bucket.id)\<close>.\<close>

record bucket =
  bucket_id_str :: string

text \<open>
  The configured backend: \<^verbatim>\<open>self.path\<close>, \<^verbatim>\<open>self.pub_path\<close> and
  \<^verbatim>\<open>self.umask\<close> (a Python \<^verbatim>\<open>int\<close>).
\<close>

record backend =
  path :: string
  pub_path :: string
  umask :: int

datatype backend_msg =
    UnableToCreateDirectory string
  | FileNamesCollision string
  | UnsupportedFileObject
  | UnableToLocateFile string

text \<open>What the operating system or a collaborator raises.\<close>

datatype os_exn = OSError int | OtherException string

datatype error = AssertionError | BackendError backend_msg | Raised os_exn

subsection \<open>\<^verbatim>\<open>FSBackend.escape_filename\<close>\<close>

text \<open>
  \<^verbatim>\<open>_re_escape = re.compile(r'[^\w\-\._]')\<close>. On a \<^verbatim>\<open>str\<close> pattern \<^verbatim>\<open>\w\<close> is
  Unicode-aware: it matches \<open>[A-Za-z0-9_]\<close> and every other alphanumeric code point.
  Which code points from 128 on are alphanumeric is a table of the Python runtime; it
  is the parameter \<open>uw\<close> here.
\<close>

definition ascii_word :: "char \<Rightarrow> bool" where
  "ascii_word c =
     ((CHR ''a'' \<le> c \<and> c \<le> CHR ''z'') \<or> (CHR ''A'' \<le> c \<and> c \<le> CHR ''Z'')
      \<or> (CHR ''0'' \<le> c \<and> c \<le> CHR ''9'') \<or> c = CHR ''_'')"

definition word_char :: "(char \<Rightarrow> bool) \<Rightarrow> char \<Rightarrow> bool" where
  "word_char uw c = (if of_char c < (128 :: nat) then ascii_word c else uw c)"

definition re_escape :: "(char \<Rightarrow> bool) \<Rightarrow> char \<Rightarrow> bool" where
  "re_escape uw c =
     (\<not> (word_char uw c \<or> c = CHR ''-'' \<or> c = CHR ''.'' \<or> c = CHR ''_''))"

text \<open>
  \<^verbatim>\<open>_re_escape.sub('_', filename)\<close>: the pattern matches exactly one character, so
  each matching character is replaced on its own.
\<close>

definition re_escape_sub :: "(char \<Rightarrow> bool) \<Rightarrow> string \<Rightarrow> string" where
  "re_escape_sub uw s = map (\<lambda>c. if re_escape uw c then CHR ''_'' else c) s"

definition strip_char :: "char \<Rightarrow> string \<Rightarrow> string" where
  "strip_char x s = rstrip_char x (dropWhile (\<lambda>c. c = x) s)"

definition escape_filename :: "(char \<Rightarrow> bool) \<Rightarrow> string \<Rightarrow> string" where
  "escape_filename uw filename = strip_char (CHR ''-'') (re_escape_sub uw filename)"

subsection \<open>\<^verbatim>\<open>FSBackend._get_base_name\<close>\<close>

definition FN_LEN_LIMIT :: int where
  "FN_LEN_LIMIT = 75"

text \<open>\<^verbatim>\<open>filename.rpartition('.')[2]\<close>: what follows the last dot.\<close>

definition rpartition_tail :: "char \<Rightarrow> string \<Rightarrow> string" where
  "rpartition_tail x s = rev (takeWhile (\<lambda>c. c \<noteq> x) (rev s))"

text \<open>
  The length bound of \<^verbatim>\<open>_get_base_name\<close> (the \<^verbatim>\<open>if len(filename) > ...\<close>
  statement), on the already prefixed name. The slices have non-negative bounds
  wherever they are taken, so \<^term>\<open>take\<close> is Python's slice.
\<close>

definition limit_filename :: "string \<Rightarrow> string" where
  "limit_filename filename =
     (if int (length filename) > FN_LEN_LIMIT then
        (if CHR ''.'' \<in> set filename then
           (let extension = rpartition_tail (CHR ''.'') filename;
                limit = FN_LEN_LIMIT - int (length extension) - 1
            in if limit \<le> 0 then take (nat FN_LEN_LIMIT) filename
               else take (nat limit) filename @ ''.'' @ extension)
         else take (nat FN_LEN_LIMIT) filename)
      else filename)"

definition get_base_name :: "bucket \<Rightarrow> pyval \<Rightarrow> string \<Rightarrow> error + string" where
  "get_base_name bkt ident filename =
     (case ident of
        UUID u \<Rightarrow>
          (let base = bucket_id_str bkt;
               new_id = b32encode (md5 (uuid_bytes u));
               base_filename = uuid_hex u @ ''_'';
               filename' = limit_filename (base_filename @ filename)
           in Inr (path_join_list base [take 2 new_id, take 2 (drop 2 new_id), filename']))
      | _ \<Rightarrow> Inl AssertionError)"

subsection \<open>\<^verbatim>\<open>FSBackend.get_file_path\<close> and \<^verbatim>\<open>FSBackend.get_file_pub_url\<close>\<close>

definition get_file_path ::
  "(char \<Rightarrow> bool) \<Rightarrow> backend \<Rightarrow> bucket \<Rightarrow> pyval \<Rightarrow> string \<Rightarrow> error + string" where
  "get_file_path uw be bkt ident filename =
     (case get_base_name bkt ident (escape_filename uw filename) of
        Inl e \<Rightarrow> Inl e
      | Inr base \<Rightarrow> Inr (path_join (path be) base))"

definition get_file_pub_url ::
  "(char \<Rightarrow> bool) \<Rightarrow> backend \<Rightarrow> bucket \<Rightarrow> pyval \<Rightarrow> string \<Rightarrow> error + string" where
  "get_file_pub_url uw be bkt ident filename =
     (case get_base_name bkt ident (escape_filename uw filename) of
        Inl e \<Rightarrow> Inl e
      | Inr base \<Rightarrow> Inr (path_join (pub_path be) base))"

section \<open>The backend: storing files\<close>

subsection \<open>The operating system as the backend sees it\<close>

text \<open>
  The store operations work through \<^verbatim>\<open>os\<close>, \<^verbatim>\<open>shutil\<close> and the upload's
  \<^verbatim>\<open>save_to\<close>. What these do depends on the machine, so the model takes them as a
  record of operations over a world \<open>'w\<close>. The three tests of \<^verbatim>\<open>os.path\<close> never
  raise and change nothing. Every other operation is a \<open>syscall\<close>: it returns the world
  it leaves and the exception it raised, if any. A failing call may still have changed
  the world (a copy that stops half-way).
\<close>

text \<open>
  The \<^verbatim>\<open>file\<close> argument of \<^verbatim>\<open>store_http_file\<close>: an \<^verbatim>\<open>http_types.File\<close> with its
  \<^verbatim>\<open>filename\<close> and its content, or any other object.
\<close>

datatype upload = HttpFile string string | OtherObject

text \<open>
  The calls, with the arguments the code passes: \<^verbatim>\<open>os.mkdir(path, mode)\<close>,
  \<^verbatim>\<open>os.makedirs(dir, exist_ok=True, mode=mode)\<close>, \<^verbatim>\<open>os.unlink(path)\<close>,
  \<^verbatim>\<open>os.remove(path)\<close>, \<^verbatim>\<open>os.link(src, dst)\<close>, \<^verbatim>\<open>shutil.copy(src, dst)\<close>,
  \<^verbatim>\<open>os.chmod(path, mode)\<close> and \<^verbatim>\<open>file.save_to(path)\<close>.
\<close>

datatype syscall =
    Mkdir string int
  | Makedirs string int
  | Unlink string
  | Remove string
  | Link string string
  | Copy string string
  | Chmod string int
  | SaveTo upload string

record 'w os =
  os_path_exists :: "'w \<Rightarrow> string \<Rightarrow> bool"
  os_path_islink :: "'w \<Rightarrow> string \<Rightarrow> bool"
  os_path_isfile :: "'w \<Rightarrow> string \<Rightarrow> bool"
  os_path_abspath :: "'w \<Rightarrow> string \<Rightarrow> string"
  os_exec :: "syscall \<Rightarrow> 'w \<Rightarrow> os_exn option \<times> 'w"

text \<open>
  The state threaded through the backend: the world, and the log of the calls made so
  far, oldest first. The log is what lets a theorem speak of the order of the calls and
  of their arguments.
\<close>

record 'w state =
  world :: 'w
  calls :: "syscall list"

type_synonym ('w, 'a) action = "'w state \<Rightarrow> (error + 'a) \<times> 'w state"

definition ok :: "'a \<Rightarrow> ('w, 'a) action" where
  "ok v s = (Inr v, s)"

definition raise :: "error \<Rightarrow> ('w, 'a) action" where
  "raise e s = (Inl e, s)"

text \<open>Sequencing: an exception ends the run, and the state reached so far stays.\<close>

definition seq :: "('w, 'a) action \<Rightarrow> ('a \<Rightarrow> ('w, 'b) action) \<Rightarrow> ('w, 'b) action" where
  "seq m f s = (case m s of (Inl e, s') \<Rightarrow> (Inl e, s') | (Inr v, s') \<Rightarrow> f v s')"

definition call :: "'w os \<Rightarrow> syscall \<Rightarrow> ('w, unit) action" where
  "call os c s =
     (case os_exec os c (world s) of
        (r, w') \<Rightarrow>
          ((case r of None \<Rightarrow> Inr () | Some e \<Rightarrow> Inl (Raised e)),
           \<lparr>world = w', calls = calls s @ [c]\<rparr>))"

definition EXDEV :: int where
  "EXDEV = 18"

subsection \<open>\<^verbatim>\<open>BaseFSBackend.__init__\<close> and \<^verbatim>\<open>FSBackend.__init__\<close>\<close>

text \<open>
  \<open>umask_cfg\<close> is the configured \<^verbatim>\<open>umask\<close> (\<^verbatim>\<open>None\<close> when unset) and
  \<open>node_umask\<close> the umask of the default node class. \<open>511\<close> is \<^verbatim>\<open>0o777\<close>.
\<close>

definition init_backend ::
  "'w os \<Rightarrow> bool \<Rightarrow> int option \<Rightarrow> int \<Rightarrow> string \<Rightarrow> string \<Rightarrow> ('w, backend) action" where
  "init_backend os auto_create_path umask_cfg node_umask path_arg pub_path_arg s =
     (let um = (case umask_cfg of None \<Rightarrow> node_umask | Some u \<Rightarrow> u);
          p = os_path_abspath os (world s) path_arg;
          be = \<lparr>path = p, pub_path = pub_path_arg, umask = um\<rparr>
      in if os_path_exists os (world s) p then ok be s
         else seq (if auto_create_path then call os (Mkdir p (511 - um)) else ok ())
                  (\<lambda>_ s'. if os_path_exists os (world s') p then ok be s'
                           else raise (BackendError (UnableToCreateDirectory p)) s') s)"

subsection \<open>\<^verbatim>\<open>FSBackend._get_path\<close> and \<^verbatim>\<open>FSBackend._after_save\<close>\<close>

definition get_path ::
  "(char \<Rightarrow> bool) \<Rightarrow> 'w os \<Rightarrow> backend \<Rightarrow> bucket \<Rightarrow> pyval \<Rightarrow> string \<Rightarrow> bool
     \<Rightarrow> ('w, string) action" where
  "get_path uw os be bkt ident filename allow_rewrite s =
     (case get_base_name bkt ident (escape_filename uw filename) of
        Inl e \<Rightarrow> raise e s
      | Inr base \<Rightarrow>
          (let p = path_join (path be) base
           in seq (if os_path_exists os (world s) p then
                     (if allow_rewrite then
                        (if os_path_islink os (world s) p then call os (Unlink p)
                         else call os (Remove p))
                      else raise (BackendError (FileNamesCollision p)))
                   else ok ())
                  (\<lambda>_. seq (call os (Makedirs (dirname p) (511 - umask be)))
                            (\<lambda>_. ok p)) s))"

text \<open>\<open>438\<close> is \<^verbatim>\<open>0o666\<close>.\<close>

definition after_save :: "'w os \<Rightarrow> backend \<Rightarrow> string \<Rightarrow> ('w, unit) action" where
  "after_save os be p = call os (Chmod p (438 - umask be))"

subsection \<open>\<^verbatim>\<open>FSBackend.store_http_file\<close> and \<^verbatim>\<open>FSBackend.store_file\<close>\<close>

text \<open>
  Both are run to their end here, as one sequential run: \<^verbatim>\<open>store_http_file\<close> goes on
  after its \<^verbatim>\<open>yield\<close> once the save has finished, or stops there with the save's
  exception.
\<close>

definition store_http_file ::
  "(char \<Rightarrow> bool) \<Rightarrow> 'w os \<Rightarrow> backend \<Rightarrow> bucket \<Rightarrow> pyval \<Rightarrow> upload \<Rightarrow> bool
     \<Rightarrow> ('w, unit) action" where
  "store_http_file uw os be bkt ident file allow_rewrite =
     (case file of
        OtherObject \<Rightarrow> raise (BackendError UnsupportedFileObject)
      | HttpFile filename body \<Rightarrow>
          seq (get_path uw os be bkt ident filename allow_rewrite)
              (\<lambda>p. seq (call os (SaveTo file p)) (\<lambda>_. after_save os be p)))"

text \<open>
  \<^verbatim>\<open>try: os.link(filename, path)\<close> with its handler: an \<^verbatim>\<open>OSError\<close> whose
  \<^verbatim>\<open>errno\<close> is \<^verbatim>\<open>EXDEV\<close> is answered by \<^verbatim>\<open>shutil.copy\<close>; any other exception
  is raised again.
\<close>

definition link_or_copy :: "'w os \<Rightarrow> string \<Rightarrow> string \<Rightarrow> ('w, unit) action" where
  "link_or_copy os filename p s =
     (case call os (Link filename p) s of
        (Inr v, s') \<Rightarrow> (Inr v, s')
      | (Inl (Raised (OSError n)), s') \<Rightarrow>
          (if n = EXDEV then call os (Copy filename p) s' else (Inl (Raised (OSError n)), s'))
      | (Inl e, s') \<Rightarrow> (Inl e, s'))"

definition store_file ::
  "(char \<Rightarrow> bool) \<Rightarrow> 'w os \<Rightarrow> backend \<Rightarrow> bucket \<Rightarrow> pyval \<Rightarrow> string \<Rightarrow> string option \<Rightarrow> bool
     \<Rightarrow> ('w, unit) action" where
  "store_file uw os be bkt ident filename name allow_rewrite s =
     (if os_path_isfile os (world s) filename then
        (let name' = (case name of None \<Rightarrow> basename filename | Some n \<Rightarrow> n)
         in seq (get_path uw os be bkt ident name' allow_rewrite)
                (\<lambda>p. seq (link_or_copy os filename p) (\<lambda>_. after_save os be p)) s)
      else raise (BackendError (UnableToLocateFile filename)) s)"

text \<open>The calls an operation added to the log.\<close>

definition new_calls :: "'w state \<Rightarrow> 'w state \<Rightarrow> syscall list" where
  "new_calls s s' = drop (length (calls s)) (calls s')"

text \<open>The world after a list of calls, whatever each of them raised.\<close>

definition replay :: "'w os \<Rightarrow> syscall list \<Rightarrow> 'w \<Rightarrow> 'w" where
  "replay os cs w = foldl (\<lambda>w c. snd (os_exec os c w)) w cs"

text \<open>
  \<open>extends os s s'\<close>: the log of \<open>s'\<close> is the log of \<open>s\<close> with calls added, and the
  world of \<open>s'\<close> is what these added calls make of the world of \<open>s\<close>.
\<close>

definition extends :: "'w os \<Rightarrow> 'w state \<Rightarrow> 'w state \<Rightarrow> bool" where
  "extends os s s' =
     (take (length (calls s)) (calls s') = calls s \<and>
      world s' = replay os (new_calls s s') (world s))"

section \<open>A small file system to run the model on\<close>

text \<open>
  An operating system for concrete runs: the world is the list of the directory
  entries that are files or symbolic links. Directories and permission bits are not
  kept, so \<open>Mkdir\<close>, \<open>Makedirs\<close> and \<open>Chmod\<close> change nothing. \<open>faults\<close> says which calls
  raise. A \<open>Link\<close> that raises changes nothing; a \<open>Copy\<close> or \<open>SaveTo\<close> that raises
  leaves the first half of the content at the destination.
\<close>

datatype entry = Regular string | Symlink string

type_synonym toy_world = "(string \<times> entry) list"

definition toy_write :: "string \<Rightarrow> entry \<Rightarrow> toy_world \<Rightarrow> toy_world" where
  "toy_write p e w = (p, e) # filter (\<lambda>q. fst q \<noteq> p) w"

definition toy_content :: "toy_world \<Rightarrow> string \<Rightarrow> string" where
  "toy_content w p = (case map_of w p of Some (Regular body) \<Rightarrow> body | _ \<Rightarrow> [])"

definition toy_exec ::
  "(syscall \<Rightarrow> os_exn option) \<Rightarrow> syscall \<Rightarrow> toy_world \<Rightarrow> os_exn option \<times> toy_world" where
  "toy_exec faults c w =
     (faults c,
      (case c of
         Unlink p \<Rightarrow> filter (\<lambda>q. fst q \<noteq> p) w
       | Remove p \<Rightarrow> filter (\<lambda>q. fst q \<noteq> p) w
       | Link src dst \<Rightarrow>
           (case faults c of
              None \<Rightarrow> toy_write dst (Regular (toy_content w src)) w
            | Some e \<Rightarrow> w)
       | Copy src dst \<Rightarrow>
           (case faults c of
              None \<Rightarrow> toy_write dst (Regular (toy_content w src)) w
            | Some e \<Rightarrow>
                toy_write dst
                  (Regular (take (length (toy_content w src) div 2) (toy_content w src))) w)
       | SaveTo file dst \<Rightarrow>
           (case file of
              HttpFile filename body \<Rightarrow>
                (case faults c of
                   None \<Rightarrow> toy_write dst (Regular body) w
                 | Some e \<Rightarrow> toy_write dst (Regular (take (length body div 2) body)) w)
            | OtherObject \<Rightarrow> w)
       | _ \<Rightarrow> w))"

definition toy_os :: "(syscall \<Rightarrow> os_exn option) \<Rightarrow> toy_world os" where
  "toy_os faults =
     \<lparr>os_path_exists = (\<lambda>w p. map_of w p \<noteq> None),
      os_path_islink = (\<lambda>w p. case map_of w p of Some (Symlink t) \<Rightarrow> True | _ \<Rightarrow> False),
      os_path_isfile = (\<lambda>w p. case map_of w p of Some (Regular b) \<Rightarrow> True | _ \<Rightarrow> False),
      os_path_abspath = (\<lambda>w p. path_join ''/'' p),
      os_exec = toy_exec faults\<rparr>"

definition no_faults :: "syscall \<Rightarrow> os_exn option" where
  "no_faults c = None"

definition link_raises :: "os_exn \<Rightarrow> syscall \<Rightarrow> os_exn option" where
  "link_raises e c = (case c of Link src dst \<Rightarrow> Some e | _ \<Rightarrow> None)"

definition copy_raises :: "os_exn \<Rightarrow> os_exn \<Rightarrow> syscall \<Rightarrow> os_exn option" where
  "copy_raises e e' c = (case c of Link src dst \<Rightarrow> Some e | Copy src dst \<Rightarrow> Some e' | _ \<Rightarrow> None)"

definition save_raises :: "os_exn \<Rightarrow> syscall \<Rightarrow> os_exn option" where
  "save_raises e c = (case c of SaveTo file dst \<Rightarrow> Some e | _ \<Rightarrow> None)"

text \<open>The table of \<^verbatim>\<open>\w\<close> in which no code point from 128 on is alphanumeric.\<close>

definition ascii_only :: "char \<Rightarrow> bool" where
  "ascii_only c = False"

text \<open>The inputs of the concrete runs.\<close>

definition bucket42 :: bucket where
  "bucket42 = \<lparr>bucket_id_str = ''42''\<rparr>"

definition id1234 :: pyval where
  "id1234 = UUID 0x12345678123456781234567812345678"

definition srv :: backend where
  "srv = \<lparr>path = ''/srv/files'', pub_path = ''http://cdn/files'', umask = 18\<rparr>"

definition report_dest :: string where
  "report_dest = ''/srv/files/42/W6/XX/12345678123456781234567812345678_report.pdf''"

definition start :: "toy_world \<Rightarrow> toy_world state" where
  "start w = \<lparr>world = w, calls = []\<rparr>"

section \<open>The sanitizer as the specification words it\<close>

text \<open>
  The specification describes the sanitizer as replacing every run of characters outside
  \<open>[A-Za-z0-9_.-]\<close> by a single underscore before the dashes are stripped. This is
  that reading, kept apart from \<open>escape_filename\<close> to compare the two. \<open>in_run\<close> says
  that the character before was replaced.
\<close>

definition spec_safe :: "char \<Rightarrow> bool" where
  "spec_safe c = (ascii_word c \<or> c = CHR ''.'' \<or> c = CHR ''-'')"

fun spec_replace_runs :: "bool \<Rightarrow> string \<Rightarrow> string" where
  "spec_replace_runs in_run [] = []"
| "spec_replace_runs in_run (c # cs) =
     (if spec_safe c then c # spec_replace_runs False cs
      else if in_run then spec_replace_runs True cs
      else CHR ''_'' # spec_replace_runs True cs)"

definition spec_escape_filename :: "string \<Rightarrow> string" where
  "spec_escape_filename s = strip_char (CHR ''-'') (spec_replace_runs False s)"

text \<open>
  A world in which the source \<^verbatim>\<open>/tmp/report.pdf\<close> holds \<^verbatim>\<open>new\<close> and the destination
  of \<^verbatim>\<open>report.pdf\<close> already holds \<^verbatim>\<open>old\<close>.
\<close>

definition old_world :: toy_world where
  "old_world = [(''/tmp/report.pdf'', Regular ''new''), (report_dest, Regular ''old'')]"

text \<open>A world in which only the source \<^verbatim>\<open>/tmp/report.pdf\<close> exists.\<close>

definition src_world :: toy_world where
  "src_world = [(''/tmp/report.pdf'', Regular ''new'')]"

text \<open>The same backend with the umask \<^verbatim>\<open>0o077\<close>.\<close>

definition srv077 :: backend where
  "srv077 = \<lparr>path = ''/srv/files'', pub_path = ''http://cdn/files'', umask = 63\<rparr>"

text \<open>A file name that needs both the sanitizer and the length bound.\<close>

definition messy_name :: string where
  "messy_name = ''a b/../xxxxxxxxxxxxxxxxxxxxxxxxxxxxxxxxxxxxxxxxxxxxxxxxxx.pdf''"

section \<open>Concrete values\<close>

text \<open>
  The shard code, the hexadecimal form and the relative path of the object id
  \<^verbatim>\<open>12345678-1234-5678-1234-567812345678\<close>, computed by the definitions above.
\<close>

text \<open>The test vectors of RFC 1321 and RFC 4648.\<close>

lemma md5_rfc1321_vectors:
  "md5 [] = [0xd4, 0x1d, 0x8c, 0xd9, 0x8f, 0x00, 0xb2, 0x04,
             0xe9, 0x80, 0x09, 0x98, 0xec, 0xf8, 0x42, 0x7e]"
  "md5 (map of_char ''abc'') = [0x90, 0x01, 0x50, 0x98, 0x3c, 0xd2, 0x4f, 0xb0,
                                 0xd6, 0x96, 0x3f, 0x7d, 0x28, 0xe1, 0x7f, 0x72]"
  by code_simp+

lemma b32encode_rfc4648_vectors:
  "b32encode [] = []"
  "b32encode (map of_char ''f'') = ''MY======''"
  "b32encode (map of_char ''fo'') = ''MZXQ====''"
  "b32encode (map of_char ''foo'') = ''MZXW6===''"
  "b32encode (map of_char ''foob'') = ''MZXW6YQ=''"
  "b32encode (map of_char ''fooba'') = ''MZXW6YTB''"
  "b32encode (map of_char ''foobar'') = ''MZXW6YTBOI======''"
  by code_simp+

lemma shard_code_id1234:
  "b32encode (md5 (uuid_bytes 0x12345678123456781234567812345678)) =
     ''W6XXHQEFQZJNEFHDIEPWCEQ2YA======''"
  by code_simp

lemma uuid_hex_id1234:
  "uuid_hex 0x12345678123456781234567812345678 = ''12345678123456781234567812345678''"
  by code_simp

lemmas escape_defs =
  escape_filename_def strip_char_def rstrip_char_def re_escape_sub_def re_escape_def
  word_char_def ascii_word_def

lemma escape_report: "escape_filename uw ''report.pdf'' = ''report.pdf''"
  by (simp add: escape_defs)

lemma base_name_report:
  "get_base_name bucket42 id1234 ''report.pdf'' =
     Inr ''42/W6/XX/12345678123456781234567812345678_report.pdf''"
  by (simp add: get_base_name_def bucket42_def id1234_def shard_code_id1234 uuid_hex_id1234
      limit_filename_def FN_LEN_LIMIT_def path_join_list_def path_join_def)

lemma file_path_report:
  "get_file_path uw srv bucket42 id1234 ''report.pdf'' = Inr report_dest"
  by (simp add: get_file_path_def escape_report base_name_report srv_def report_dest_def
      path_join_def)

section \<open>The length bound of stored names\<close>

lemma rpartition_tail_split:
  assumes "fn = pre @ ''.'' @ ext" and "CHR ''.'' \<notin> set ext"
  shows "rpartition_tail (CHR ''.'') fn = ext"
proof -
  have "rev fn = rev ext @ CHR ''.'' # rev pre"
    using assms(1) by simp
  moreover have "\<forall>c \<in> set (rev ext). c \<noteq> CHR ''.''"
    using assms(2) by auto
  ultimately have "takeWhile (\<lambda>c. c \<noteq> CHR ''.'') (rev fn) = rev ext"
    by (simp add: takeWhile_tail)
  then show ?thesis
    by (simp add: rpartition_tail_def)
qed

lemma limit_filename_short: "length fn \<le> 75 \<Longrightarrow> limit_filename fn = fn"
  by (simp add: limit_filename_def FN_LEN_LIMIT_def)

lemma limit_filename_no_dot:
  "75 < length fn \<Longrightarrow> CHR ''.'' \<notin> set fn \<Longrightarrow> limit_filename fn = take 75 fn"
  by (simp add: limit_filename_def FN_LEN_LIMIT_def)

lemma limit_filename_keep_ext:
  assumes long: "75 < length fn"
    and split: "fn = pre @ ''.'' @ ext"
    and nodot: "CHR ''.'' \<notin> set ext"
    and room: "75 - int (length ext) - 1 > 0"
  shows "limit_filename fn = take (74 - length ext) pre @ ''.'' @ ext"
proof -
  have ext: "rpartition_tail (CHR ''.'') fn = ext"
    by (rule rpartition_tail_split [OF split nodot])
  have dot: "CHR ''.'' \<in> set fn"
    using split by simp
  have lim: "nat (FN_LEN_LIMIT - int (length ext) - 1) = 74 - length ext"
    using room by (simp add: FN_LEN_LIMIT_def)
  have "length pre = length fn - 1 - length ext"
    using split by simp
  then have "74 - length ext \<le> length pre"
    using long room by linarith
  then have "take (74 - length ext) fn = take (74 - length ext) pre"
    using split by simp
  then show ?thesis
    using long dot room ext lim by (simp add: limit_filename_def Let_def FN_LEN_LIMIT_def)
qed

lemma limit_filename_ext_too_long:
  assumes long: "75 < length fn"
    and split: "fn = pre @ ''.'' @ ext"
    and nodot: "CHR ''.'' \<notin> set ext"
    and room: "\<not> 75 - int (length ext) - 1 > 0"
  shows "limit_filename fn = take 75 fn"
proof -
  have ext: "rpartition_tail (CHR ''.'') fn = ext"
    by (rule rpartition_tail_split [OF split nodot])
  show ?thesis
    using long room ext by (simp add: limit_filename_def Let_def FN_LEN_LIMIT_def)
qed

text \<open>
  C3. \<open>fn\<close> is the prefixed, sanitized name (\<^verbatim>\<open>id.hex + '_' + filename\<close>). If it has
  at most 75 characters it is returned unchanged. If it is longer and \<open>ext\<close> is what
  follows its last dot, then, when \<open>75 - len(ext) - 1 > 0\<close>, the result has exactly 75
  characters and is the part before the dot cut to \<open>74 - len(ext)\<close> characters, followed
  by the dot and \<open>ext\<close>; otherwise, and also when there is no dot at all, the result is
  the first 75 characters of \<open>fn\<close>.
\<close>

theorem limit_filename_cases:
  "(length fn \<le> 75 \<longrightarrow> limit_filename fn = fn) \<and>
   (75 < length fn \<longrightarrow>
      (\<forall>pre ext. fn = pre @ ''.'' @ ext \<and> CHR ''.'' \<notin> set ext \<longrightarrow>
         (if 75 - int (length ext) - 1 > 0
          then length (limit_filename fn) = 75 \<and>
               limit_filename fn = take (74 - length ext) pre @ ''.'' @ ext
          else limit_filename fn = take 75 fn)) \<and>
      (CHR ''.'' \<notin> set fn \<longrightarrow> limit_filename fn = take 75 fn))"
proof (intro conjI impI allI)
  assume "length fn \<le> 75"
  then show "limit_filename fn = fn"
    by (rule limit_filename_short)
next
  fix pre ext
  assume long: "75 < length fn" and sp: "fn = pre @ ''.'' @ ext \<and> CHR ''.'' \<notin> set ext"
  show "if 75 - int (length ext) - 1 > 0
        then length (limit_filename fn) = 75 \<and>
             limit_filename fn = take (74 - length ext) pre @ ''.'' @ ext
        else limit_filename fn = take 75 fn"
  proof (cases "75 - int (length ext) - 1 > 0")
    case True
    have eq: "limit_filename fn = take (74 - length ext) pre @ ''.'' @ ext"
      using limit_filename_keep_ext [OF long] sp True by blast
    have "length pre = length fn - 1 - length ext"
      using sp by simp
    then have "74 - length ext \<le> length pre"
      using long True by linarith
    then have "length (take (74 - length ext) pre @ ''.'' @ ext) = 75"
      using True by simp
    with eq True show ?thesis by simp
  next
    case False
    then show ?thesis
      using limit_filename_ext_too_long [OF long] sp by auto
  qed
next
  assume "75 < length fn" and "CHR ''.'' \<notin> set fn"
  then show "limit_filename fn = take 75 fn"
    by (rule limit_filename_no_dot)
qed

text \<open>
  A name of 90 characters that ends in \<^verbatim>\<open>.pdf\<close> is cut to 75 characters and keeps
  its extension.
\<close>

theorem limit_filename_cases_witness:
  "limit_filename (replicate 86 (CHR ''a'') @ ''.pdf'') = replicate 71 (CHR ''a'') @ ''.pdf'' \<and>
   length (limit_filename (replicate 86 (CHR ''a'') @ ''.pdf'')) = 75"
proof -
  let ?fn = "replicate 86 (CHR ''a'') @ ''.pdf''"
  have long: "75 < length ?fn" by simp
  have sp: "?fn = replicate 86 (CHR ''a'') @ ''.'' @ ''pdf'' \<and> CHR ''.'' \<notin> set ''pdf''"
    by simp
  have room: "75 - int (length ''pdf'') - 1 > 0" by simp
  from limit_filename_cases [of ?fn] long
  have "\<forall>pre ext. ?fn = pre @ ''.'' @ ext \<and> CHR ''.'' \<notin> set ext \<longrightarrow>
         (if 75 - int (length ext) - 1 > 0
          then length (limit_filename ?fn) = 75 \<and>
               limit_filename ?fn = take (74 - length ext) pre @ ''.'' @ ext
          else limit_filename ?fn = take 75 ?fn)"
    by blast
  with sp room have "length (limit_filename ?fn) = 75 \<and>
      limit_filename ?fn = take (74 - length ''pdf'') (replicate 86 (CHR ''a'')) @ ''.'' @ ''pdf''"
    by (metis (no_types, lifting))
  then show ?thesis by simp
qed

section \<open>The sanitizer\<close>

lemma last_dropWhile_eq: "dropWhile P xs \<noteq> [] \<Longrightarrow> last (dropWhile P xs) = last xs"
  by (induction xs) (auto split: if_splits)

lemma strip_char_decomp:
  "\<exists>a b. t = a @ strip_char x t @ b \<and> set a \<subseteq> {x} \<and> set b \<subseteq> {x}"
proof -
  let ?P = "\<lambda>c. c = x"
  let ?d = "dropWhile ?P t"
  let ?a = "takeWhile ?P t"
  let ?b = "rev (takeWhile ?P (rev ?d))"
  have "rev ?d = takeWhile ?P (rev ?d) @ dropWhile ?P (rev ?d)"
    by simp
  then have "?d = rev (dropWhile ?P (rev ?d)) @ ?b"
    by (metis rev_append rev_rev_ident)
  then have "t = ?a @ strip_char x t @ ?b"
    by (metis strip_char_def rstrip_char_def takeWhile_dropWhile_id)
  moreover have "set ?a \<subseteq> {x}"
    by (auto dest: set_takeWhileD)
  moreover have "set ?b \<subseteq> {x}"
    by (auto dest: set_takeWhileD)
  ultimately show ?thesis by blast
qed

lemma strip_char_ends:
  assumes "strip_char x t \<noteq> []"
  shows "hd (strip_char x t) \<noteq> x \<and> last (strip_char x t) \<noteq> x"
proof -
  let ?P = "\<lambda>c. c = x"
  let ?d = "dropWhile ?P t"
  let ?e = "dropWhile ?P (rev ?d)"
  have r: "strip_char x t = rev ?e"
    by (simp add: strip_char_def rstrip_char_def)
  with assms have ne: "?e \<noteq> []" by simp
  have dne: "?d \<noteq> []"
    by (metis ne dropWhile.simps(1) rev.simps(1))
  have "last (rev ?e) = hd ?e"
    using ne by (simp add: last_rev)
  moreover have "hd ?e \<noteq> x"
    using ne hd_dropWhile [of ?P "rev ?d"] by simp
  moreover have "hd (rev ?e) = last ?e"
    using ne by (simp add: hd_rev)
  moreover have "last ?e = last (rev ?d)"
    using ne by (rule last_dropWhile_eq)
  moreover have "last (rev ?d) = hd ?d"
    using dne by (simp add: last_rev)
  moreover have "hd ?d \<noteq> x"
    using dne hd_dropWhile [of ?P t] by simp
  ultimately show ?thesis
    using r by simp
qed

lemma strip_char_subset: "set (strip_char x t) \<subseteq> set t"
proof -
  obtain a b where "t = a @ strip_char x t @ b"
    using strip_char_decomp by blast
  then have "set t = set a \<union> set (strip_char x t) \<union> set b"
    by (metis set_append sup_assoc)
  then show ?thesis by blast
qed

lemma re_escape_sub_nth:
  "i < length s \<Longrightarrow>
   re_escape_sub uw s ! i =
     (if word_char uw (s ! i) \<or> s ! i = CHR ''-'' \<or> s ! i = CHR ''.'' then s ! i else CHR ''_'')"
  by (auto simp: re_escape_sub_def re_escape_def word_char_def ascii_word_def)

lemma re_escape_sub_chars:
  "c \<in> set (re_escape_sub uw s) \<Longrightarrow> word_char uw c \<or> c = CHR ''-'' \<or> c = CHR ''.''"
  by (auto simp: re_escape_sub_def re_escape_def word_char_def ascii_word_def)

lemma re_escape_sub_ascii:
  "\<forall>c \<in> set s. of_char c < (128 :: nat) \<Longrightarrow> c \<in> set (re_escape_sub uw s) \<Longrightarrow>
   ascii_word c \<or> c = CHR ''-'' \<or> c = CHR ''.''"
  by (auto simp: re_escape_sub_def re_escape_def word_char_def ascii_word_def split: if_splits)

text \<open>
  C2, as the code has it. \<^verbatim>\<open>escape_filename\<close> replaces each character that is
  neither a word character of \<^verbatim>\<open>\w\<close>, nor a dash, nor a dot by one underscore of
  its own: the substituted string has the length of the input and differs from it
  exactly at those positions. Then leading and trailing dashes are stripped: the result
  is the substituted string without a prefix and a suffix of dashes, and it neither
  starts nor ends with a dash. Every character of the result is a word character, a
  dash or a dot; when the input is ASCII these are the characters \<open>[A-Za-z0-9_.-]\<close>.
  The two examples of the specification hold.
\<close>

theorem escape_filename_per_character:
  "length (re_escape_sub uw s) = length s \<and>
   (\<forall>i < length s. re_escape_sub uw s ! i =
      (if word_char uw (s ! i) \<or> s ! i = CHR ''-'' \<or> s ! i = CHR ''.'' then s ! i else CHR ''_'')) \<and>
   (\<exists>a b. re_escape_sub uw s = a @ escape_filename uw s @ b \<and>
           set a \<subseteq> {CHR ''-''} \<and> set b \<subseteq> {CHR ''-''}) \<and>
   (escape_filename uw s \<noteq> [] \<longrightarrow>
      hd (escape_filename uw s) \<noteq> CHR ''-'' \<and> last (escape_filename uw s) \<noteq> CHR ''-'') \<and>
   (\<forall>c \<in> set (escape_filename uw s). word_char uw c \<or> c = CHR ''-'' \<or> c = CHR ''.'') \<and>
   ((\<forall>c \<in> set s. of_char c < (128 :: nat)) \<longrightarrow>
      (\<forall>c \<in> set (escape_filename uw s). ascii_word c \<or> c = CHR ''-'' \<or> c = CHR ''.'')) \<and>
   escape_filename uw ''a/b c.txt'' = ''a_b_c.txt'' \<and>
   escape_filename uw ''--x--'' = ''x''"
proof (intro conjI)
  show "length (re_escape_sub uw s) = length s"
    by (simp add: re_escape_sub_def)
  show "\<forall>i < length s. re_escape_sub uw s ! i =
      (if word_char uw (s ! i) \<or> s ! i = CHR ''-'' \<or> s ! i = CHR ''.'' then s ! i else CHR ''_'')"
    using re_escape_sub_nth by blast
  show "\<exists>a b. re_escape_sub uw s = a @ escape_filename uw s @ b \<and>
           set a \<subseteq> {CHR ''-''} \<and> set b \<subseteq> {CHR ''-''}"
    unfolding escape_filename_def by (rule strip_char_decomp)
  show "escape_filename uw s \<noteq> [] \<longrightarrow>
      hd (escape_filename uw s) \<noteq> CHR ''-'' \<and> last (escape_filename uw s) \<noteq> CHR ''-''"
    unfolding escape_filename_def using strip_char_ends by blast
  have sub: "set (escape_filename uw s) \<subseteq> set (re_escape_sub uw s)"
    unfolding escape_filename_def by (rule strip_char_subset)
  show "\<forall>c \<in> set (escape_filename uw s). word_char uw c \<or> c = CHR ''-'' \<or> c = CHR ''.''"
    using sub re_escape_sub_chars by blast
  show "(\<forall>c \<in> set s. of_char c < (128 :: nat)) \<longrightarrow>
      (\<forall>c \<in> set (escape_filename uw s). ascii_word c \<or> c = CHR ''-'' \<or> c = CHR ''.'')"
    using sub re_escape_sub_ascii by blast
  show "escape_filename uw ''a/b c.txt'' = ''a_b_c.txt''"
    by (simp add: escape_defs)
  show "escape_filename uw ''--x--'' = ''x''"
    by (simp add: escape_defs)
qed

text \<open>Two slashes in a row become two underscores.\<close>

theorem escape_filename_per_character_witness:
  "length (re_escape_sub ascii_only ''-a//b-'') = 6 \<and>
   re_escape_sub ascii_only ''-a//b-'' ! 2 = CHR ''_'' \<and>
   re_escape_sub ascii_only ''-a//b-'' ! 3 = CHR ''_'' \<and>
   escape_filename ascii_only ''-a//b-'' = ''a__b'' \<and>
   hd (escape_filename ascii_only ''-a//b-'') \<noteq> CHR ''-'' \<and>
   last (escape_filename ascii_only ''-a//b-'') \<noteq> CHR ''-''"
proof -
  have e: "escape_filename ascii_only ''-a//b-'' = ''a__b''"
    by (simp add: escape_defs)
  have ne: "escape_filename ascii_only ''-a//b-'' \<noteq> []"
    by (simp add: e)
  have w: "\<not> word_char ascii_only (CHR ''/'')"
    by (simp add: word_char_def ascii_word_def)
  from escape_filename_per_character [of ascii_only "''-a//b-''"] ne w
  show ?thesis
    by (simp add: e)
qed

text \<open>
  The run reading of the specification gives one underscore for the two slashes; the
  code gives two.
\<close>

theorem escape_filename_runs_counterexample:
  "escape_filename ascii_only ''a//b'' = ''a__b'' \<and> spec_escape_filename ''a//b'' = ''a_b''"
  by (simp add: escape_defs spec_escape_filename_def spec_safe_def)

section \<open>Paths and public locations\<close>

lemma path_join_suffix: "\<exists>p. path_join a b = p @ b"
proof (cases "b \<noteq> [] \<and> hd b = CHR ''/''")
  case True
  then have "path_join a b = [] @ b"
    by (simp add: path_join_def)
  then show ?thesis by blast
next
  case False
  then have "path_join a b = a @ b \<or> path_join a b = (a @ ''/'') @ b"
    by (auto simp: path_join_def)
  then show ?thesis by blast
qed

lemma length_md5: "length (md5 m) = 16"
  by (simp add: md5_def le_bytes32_def split: prod.splits)

lemma b32_digit_in_alphabet: "b32_alphabet ! unat ((x :: 40 word) AND 31) \<in> set b32_alphabet"
proof -
  have "unat (x AND 31) \<le> unat (31 :: 40 word)"
    by (rule word_and_le1 [THEN word_le_nat_alt [THEN iffD1]])
  then have "unat (x AND 31) < length b32_alphabet"
    by (simp add: b32_alphabet_def)
  then show ?thesis
    by (rule nth_mem)
qed

lemma b32_group_full:
  assumes "length g = 5"
  shows "length (b32_group g) = 8 \<and> set (b32_group g) \<subseteq> set b32_alphabet"
  using assms b32_digit_in_alphabet
  by (auto simp: b32_group_def Let_def)

lemma b32encode_first_group:
  assumes "5 \<le> length bs"
  shows "\<exists>rest. b32encode bs = b32_group (take 5 bs) @ rest"
proof -
  have "bs \<noteq> []" using assms by auto
  then have "chunks 5 bs = take 5 bs # chunks 5 (drop 5 bs)"
    by (subst chunks.simps) simp
  then show ?thesis
    by (simp add: b32encode_def)
qed

lemma shard_code_head:
  assumes "5 \<le> length bs"
  shows "length (take 2 (b32encode bs)) = 2 \<and> length (take 2 (drop 2 (b32encode bs))) = 2 \<and>
         set (take 4 (b32encode bs)) \<subseteq> set b32_alphabet"
proof -
  obtain rest where c: "b32encode bs = b32_group (take 5 bs) @ rest"
    using b32encode_first_group [OF assms] by blast
  have g: "length (b32_group (take 5 bs)) = 8 \<and> set (b32_group (take 5 bs)) \<subseteq> set b32_alphabet"
    using assms by (intro b32_group_full) simp
  have "take 4 (b32encode bs) = take 4 (b32_group (take 5 bs))"
    using c g by simp
  then have "set (take 4 (b32encode bs)) \<subseteq> set b32_alphabet"
    using g set_take_subset by fastforce
  then show ?thesis
    using c g by simp
qed

lemma hex_digit_in_digits: "hex_digits ! unat ((x :: 128 word) AND 15) \<in> set hex_digits"
proof -
  have "unat (x AND 15) \<le> unat (15 :: 128 word)"
    by (rule word_and_le1 [THEN word_le_nat_alt [THEN iffD1]])
  then have "unat (x AND 15) < length hex_digits"
    by (simp add: hex_digits_def)
  then show ?thesis
    by (rule nth_mem)
qed

lemma uuid_hex_shape: "length (uuid_hex u) = 32 \<and> set (uuid_hex u) \<subseteq> set hex_digits"
  using hex_digit_in_digits by (auto simp: uuid_hex_def)

lemma hex_digit_word_char: "c \<in> set hex_digits \<Longrightarrow> word_char uw c"
  by (auto simp: hex_digits_def word_char_def ascii_word_def)

lemma slash_not_safe:
  "\<not> (word_char uw (CHR ''/'') \<or> CHR ''/'' = CHR ''-'' \<or> CHR ''/'' = CHR ''.'')"
  by (simp add: word_char_def ascii_word_def)

lemma escape_filename_chars:
  "c \<in> set (escape_filename uw s) \<Longrightarrow> word_char uw c \<or> c = CHR ''-'' \<or> c = CHR ''.''"
  using strip_char_subset re_escape_sub_chars unfolding escape_filename_def by blast

lemma set_limit_filename: "set (limit_filename fn) \<subseteq> set fn"
proof -
  have "set (rpartition_tail (CHR ''.'') fn) \<subseteq> set fn"
    by (auto simp: rpartition_tail_def dest: set_takeWhileD)
  moreover have "set (take n fn) \<subseteq> set fn" for n
    by (rule set_take_subset)
  ultimately show ?thesis
    by (auto simp: limit_filename_def Let_def)
qed

lemma length_limit_filename: "length (limit_filename fn) \<le> 75"
  by (auto simp: limit_filename_def Let_def FN_LEN_LIMIT_def)

lemma length_limit_filename_long: "75 < length fn \<Longrightarrow> length (limit_filename fn) = 75"
  by (auto simp: limit_filename_def Let_def FN_LEN_LIMIT_def)

lemma limit_filename_nonempty: "fn \<noteq> [] \<Longrightarrow> limit_filename fn \<noteq> []"
  by (auto simp: limit_filename_def Let_def FN_LEN_LIMIT_def)

lemma path_join_relative:
  assumes "b \<noteq> []" and "hd b \<noteq> CHR ''/''"
  shows "path_join a b = (if a = [] \<or> last a = CHR ''/'' then a else a @ ''/'') @ b"
  using assms by (simp add: path_join_def)

lemma basename_after_sep:
  assumes "CHR ''/'' \<notin> set b"
  shows "basename (a @ ''/'' @ b) = b"
proof -
  have "takeWhile (\<lambda>c. c \<noteq> CHR ''/'') (rev (a @ ''/'' @ b)) = rev b"
    using assms by (auto simp: takeWhile_tail)
  then show ?thesis
    by (simp add: basename_def rfind_sep_end_def)
qed

lemma path_join_keeps_basename:
  assumes "rel = x @ ''/'' @ b" and "CHR ''/'' \<notin> set b"
  shows "basename (path_join root rel) = b"
proof -
  have "path_join root rel = rel \<or> path_join root rel = root @ rel \<or>
        path_join root rel = root @ ''/'' @ rel"
    by (auto simp: path_join_def)
  then have "\<exists>y. path_join root rel = y @ ''/'' @ b"
    using assms(1) by (metis append.assoc)
  then show ?thesis
    using basename_after_sep [OF assms(2)] by auto
qed

text \<open>The layout of the relative path.\<close>

lemma relative_path_layout:
  assumes s1: "length s1 = 2" "CHR ''/'' \<notin> set s1"
    and s2: "length s2 = 2" "CHR ''/'' \<notin> set s2"
    and st: "stored \<noteq> []" "CHR ''/'' \<notin> set stored"
  shows "path_join (path_join (path_join bid s1) s2) stored =
           path_join bid s1 @ ''/'' @ s2 @ ''/'' @ stored"
    and "path_join bid s1 = (if bid = [] \<or> last bid = CHR ''/'' then bid else bid @ ''/'') @ s1"
proof -
  obtain a1 b1 where p1: "s1 = [a1, b1]"
    using s1(1) by (auto simp: length_Suc_conv numeral_2_eq_2)
  obtain a2 b2 where p2: "s2 = [a2, b2]"
    using s2(1) by (auto simp: length_Suc_conv numeral_2_eq_2)
  have n1: "s1 \<noteq> []" "hd s1 \<noteq> CHR ''/''" "last s1 \<noteq> CHR ''/''"
    using s1(2) by (auto simp: p1)
  have n2: "s2 \<noteq> []" "hd s2 \<noteq> CHR ''/''" "last s2 \<noteq> CHR ''/''"
    using s2(2) by (auto simp: p2)
  have n3: "hd stored \<noteq> CHR ''/''"
    using st by (cases stored) auto
  show j1: "path_join bid s1 = (if bid = [] \<or> last bid = CHR ''/'' then bid else bid @ ''/'') @ s1"
    by (rule path_join_relative [OF n1(1,2)])
  have e1: "path_join bid s1 \<noteq> []" "last (path_join bid s1) \<noteq> CHR ''/''"
    using n1 by (simp_all add: j1)
  have j2: "path_join (path_join bid s1) s2 = path_join bid s1 @ ''/'' @ s2"
    using e1 by (simp add: path_join_relative [OF n2(1,2)])
  have e2: "path_join (path_join bid s1) s2 \<noteq> []"
    "last (path_join (path_join bid s1) s2) \<noteq> CHR ''/''"
    using n2 by (simp_all add: j2)
  show "path_join (path_join (path_join bid s1) s2) stored =
           path_join bid s1 @ ''/'' @ s2 @ ''/'' @ stored"
    using e2 by (simp add: path_join_relative [OF st(1) n3] j2)
qed

text \<open>
  C1. For every backend, bucket, 128-bit object id \<open>u\<close> and file name, let \<open>c\<close> be the
  base-32 encoding of the MD5 digest of the 16 bytes of \<open>u\<close>, \<open>sanitized\<close> the file name
  after \<^verbatim>\<open>escape_filename\<close>, and \<open>stored\<close> the length-bounded \<open>hex(u) + '_' + sanitized\<close>.
  Then \<^verbatim>\<open>get_file_path\<close> returns the storage root and \<^verbatim>\<open>get_file_pub_url\<close> the
  public root, each joined (as \<^verbatim>\<open>os.path.join\<close> joins) with the same relative path
  \<open>join(str(bucket.id), c[0:2], c[2:4], stored)\<close>, and both results end with it. The
  parts are what the claim says they are:
  \<^item> the two shards have two characters each, all from the base-32 alphabet;
  \<^item> every character of the sanitized name is a word character, a dash or a dot, and
    the sanitized name neither starts nor ends with a dash;
  \<^item> the stored name is not empty, has at most 75 characters, consists of word
    characters, dashes and dots, and holds no path separator; it is the prefixed name
    itself when that has at most 75 characters, and has exactly 75 otherwise;
  \<^item> the relative path is the bucket id, a separator unless the id is empty or ends
    with one, and then \<open>c[0:2] / c[2:4] / stored\<close>;
  \<^item> the last component of both results is the stored name.
  Both functions depend on their arguments alone, so repeated calls agree.
\<close>

theorem file_path_and_pub_url_share_relative_path:
  "let c = b32encode (md5 (uuid_bytes u));
       shard1 = take 2 c;
       shard2 = take 2 (drop 2 c);
       sanitized = escape_filename uw filename;
       stored = limit_filename (uuid_hex u @ ''_'' @ sanitized);
       rel = path_join (path_join (path_join (bucket_id_str bkt) shard1) shard2) stored
   in get_file_path uw be bkt (UUID u) filename = Inr (path_join (path be) rel) \<and>
      get_file_pub_url uw be bkt (UUID u) filename = Inr (path_join (pub_path be) rel) \<and>
      (\<exists>p1 p2. path_join (path be) rel = p1 @ rel \<and> path_join (pub_path be) rel = p2 @ rel) \<and>
      length shard1 = 2 \<and> length shard2 = 2 \<and> set (shard1 @ shard2) \<subseteq> set b32_alphabet \<and>
      (\<forall>x \<in> set sanitized. word_char uw x \<or> x = CHR ''-'' \<or> x = CHR ''.'') \<and>
      (sanitized \<noteq> [] \<longrightarrow> hd sanitized \<noteq> CHR ''-'' \<and> last sanitized \<noteq> CHR ''-'') \<and>
      0 < length stored \<and> length stored \<le> 75 \<and>
      (\<forall>x \<in> set stored. word_char uw x \<or> x = CHR ''-'' \<or> x = CHR ''.'') \<and>
      CHR ''/'' \<notin> set stored \<and>
      (length (uuid_hex u @ ''_'' @ sanitized) \<le> 75 \<longrightarrow>
         stored = uuid_hex u @ ''_'' @ sanitized) \<and>
      (75 < length (uuid_hex u @ ''_'' @ sanitized) \<longrightarrow> length stored = 75) \<and>
      rel = (if bucket_id_str bkt = [] \<or> last (bucket_id_str bkt) = CHR ''/''
             then bucket_id_str bkt else bucket_id_str bkt @ ''/'')
            @ shard1 @ ''/'' @ shard2 @ ''/'' @ stored \<and>
      basename (path_join (path be) rel) = stored \<and>
      basename (path_join (pub_path be) rel) = stored"
proof -
  let ?c = "b32encode (md5 (uuid_bytes u))"
  let ?sanitized = "escape_filename uw filename"
  let ?fn = "uuid_hex u @ ''_'' @ ?sanitized"
  let ?stored = "limit_filename ?fn"
  let ?bid = "bucket_id_str bkt"
  let ?rel = "path_join (path_join (path_join ?bid (take 2 ?c)) (take 2 (drop 2 ?c))) ?stored"
  have gfp: "get_file_path uw be bkt (UUID u) filename = Inr (path_join (path be) ?rel)"
    by (simp add: get_file_path_def get_base_name_def path_join_list_def Let_def)
  have gpu: "get_file_pub_url uw be bkt (UUID u) filename = Inr (path_join (pub_path be) ?rel)"
    by (simp add: get_file_pub_url_def get_base_name_def path_join_list_def Let_def)
  have suf: "\<exists>p1 p2. path_join (path be) ?rel = p1 @ ?rel \<and> path_join (pub_path be) ?rel = p2 @ ?rel"
    using path_join_suffix by blast
  have sh: "length (take 2 ?c) = 2 \<and> length (take 2 (drop 2 ?c)) = 2 \<and>
            set (take 4 ?c) \<subseteq> set b32_alphabet"
    by (rule shard_code_head) (simp add: length_md5)
  have t4: "take 2 ?c @ take 2 (drop 2 ?c) = take 4 ?c"
    using take_add [of 2 2 ?c] by simp
  have shards: "set (take 2 ?c @ take 2 (drop 2 ?c)) \<subseteq> set b32_alphabet"
    using sh unfolding t4 by blast
  have noslash: "CHR ''/'' \<notin> set b32_alphabet"
    by (simp add: b32_alphabet_def)
  have ns1: "CHR ''/'' \<notin> set (take 2 ?c)" and ns2: "CHR ''/'' \<notin> set (take 2 (drop 2 ?c))"
    using shards noslash by auto
  have san: "\<forall>x \<in> set ?sanitized. word_char uw x \<or> x = CHR ''-'' \<or> x = CHR ''.''"
    using escape_filename_chars by blast
  have ends: "?sanitized \<noteq> [] \<longrightarrow> hd ?sanitized \<noteq> CHR ''-'' \<and> last ?sanitized \<noteq> CHR ''-''"
    unfolding escape_filename_def using strip_char_ends by blast
  have fnch: "\<forall>x \<in> set ?fn. word_char uw x \<or> x = CHR ''-'' \<or> x = CHR ''.''"
  proof
    fix x
    assume "x \<in> set ?fn"
    then consider "x \<in> set (uuid_hex u)" | "x = CHR ''_''" | "x \<in> set ?sanitized"
      by auto
    then show "word_char uw x \<or> x = CHR ''-'' \<or> x = CHR ''.''"
    proof cases
      case 1
      then have "x \<in> set hex_digits"
        using uuid_hex_shape [of u] by blast
      then show ?thesis
        by (simp add: hex_digit_word_char)
    next
      case 2
      then show ?thesis
        by (simp add: word_char_def ascii_word_def)
    next
      case 3
      then show ?thesis
        using san by blast
    qed
  qed
  have stch: "\<forall>x \<in> set ?stored. word_char uw x \<or> x = CHR ''-'' \<or> x = CHR ''.''"
    using fnch set_limit_filename [of ?fn] by blast
  have stns: "CHR ''/'' \<notin> set ?stored"
    using stch slash_not_safe [of uw] by blast
  have fnne: "?fn \<noteq> []"
    by simp
  have stne: "?stored \<noteq> []"
    by (rule limit_filename_nonempty [OF fnne])
  have stlen: "length ?stored \<le> 75"
    by (rule length_limit_filename)
  have short: "length ?fn \<le> 75 \<longrightarrow> ?stored = ?fn"
    using limit_filename_short by blast
  have long: "75 < length ?fn \<longrightarrow> length ?stored = 75"
    using length_limit_filename_long by blast
  note lay = relative_path_layout [OF conjunct1 [OF sh] ns1 conjunct1 [OF conjunct2 [OF sh]] ns2
      stne stns, of ?bid]
  have layout: "?rel = (if ?bid = [] \<or> last ?bid = CHR ''/'' then ?bid else ?bid @ ''/'')
            @ take 2 ?c @ ''/'' @ take 2 (drop 2 ?c) @ ''/'' @ ?stored"
    by (subst lay(1), subst lay(2)) simp
  have relx: "?rel = (path_join ?bid (take 2 ?c) @ ''/'' @ take 2 (drop 2 ?c)) @ ''/'' @ ?stored"
    unfolding lay(1) by simp
  have b1: "basename (path_join (path be) ?rel) = ?stored"
    by (rule path_join_keeps_basename [OF relx stns])
  have b2: "basename (path_join (pub_path be) ?rel) = ?stored"
    by (rule path_join_keeps_basename [OF relx stns])
  have l1: "length (take 2 ?c) = 2" and l2: "length (take 2 (drop 2 ?c)) = 2"
    using sh by blast+
  have pos: "0 < length ?stored"
    using stne by simp
  show ?thesis
    unfolding Let_def
    apply (intro conjI)
                   apply (rule gfp)
                  apply (rule gpu)
                 apply (rule suf)
                apply (rule l1)
               apply (rule l2)
              apply (rule shards)
             apply (rule san)
            apply (rule ends)
           apply (rule pos)
          apply (rule stlen)
         apply (rule stch)
        apply (rule stns)
       apply (rule short)
      apply (rule long)
     apply (rule layout)
    apply (rule b1)
    apply (rule b2)
    done
qed

text \<open>
  A name with a blank, separators and 61 characters: it is sanitized, cut to 75
  characters with its extension kept, and is the last component of both locations.
\<close>

lemma stored_messy:
  "limit_filename (uuid_hex 0x12345678123456781234567812345678 @
                   CHR ''_'' # escape_filename ascii_only messy_name) =
     ''12345678123456781234567812345678_a_b_.._xxxxxxxxxxxxxxxxxxxxxxxxxxxxxxx.pdf''"
  by code_simp

theorem file_path_and_pub_url_example:
  "get_file_path ascii_only srv bucket42 id1234 messy_name =
     Inr ''/srv/files/42/W6/XX/12345678123456781234567812345678_a_b_.._xxxxxxxxxxxxxxxxxxxxxxxxxxxxxxx.pdf'' \<and>
   get_file_pub_url ascii_only srv bucket42 id1234 messy_name =
     Inr ''http://cdn/files/42/W6/XX/12345678123456781234567812345678_a_b_.._xxxxxxxxxxxxxxxxxxxxxxxxxxxxxxx.pdf'' \<and>
   length (limit_filename (uuid_hex 0x12345678123456781234567812345678 @ ''_'' @
                             escape_filename ascii_only messy_name)) = 75 \<and>
   CHR ''/'' \<notin> set (limit_filename (uuid_hex 0x12345678123456781234567812345678 @ ''_'' @
                                      escape_filename ascii_only messy_name)) \<and>
   basename ''/srv/files/42/W6/XX/12345678123456781234567812345678_a_b_.._xxxxxxxxxxxxxxxxxxxxxxxxxxxxxxx.pdf'' =
     ''12345678123456781234567812345678_a_b_.._xxxxxxxxxxxxxxxxxxxxxxxxxxxxxxx.pdf''"
  using file_path_and_pub_url_share_relative_path
    [of "0x12345678123456781234567812345678" ascii_only messy_name bucket42 srv]
  by (simp add: Let_def id1234_def bucket42_def srv_def shard_code_id1234 stored_messy
      path_join_def)

section \<open>The scenario of the specification\<close>

text \<open>
  C7, with the length the code gives. For bucket id \<^verbatim>\<open>42\<close>, the object id with
  hexadecimal form \<^verbatim>\<open>12345678123456781234567812345678\<close> and the file name
  \<^verbatim>\<open>report.pdf\<close>: the sanitized name is the file name itself; the stored name is
  \<^verbatim>\<open>12345678123456781234567812345678_report.pdf\<close>, which has 43 characters and is
  below the bound, so unchanged; and the relative path is
  \<^verbatim>\<open>42/W6/XX/12345678123456781234567812345678_report.pdf\<close>, where \<^verbatim>\<open>W6\<close> and
  \<^verbatim>\<open>XX\<close> are the first four characters of the shard code.
\<close>

theorem scenario_report_pdf:
  "escape_filename uw ''report.pdf'' = ''report.pdf'' \<and>
   limit_filename (uuid_hex 0x12345678123456781234567812345678 @ ''_''
                     @ escape_filename uw ''report.pdf'') =
     ''12345678123456781234567812345678_report.pdf'' \<and>
   length ''12345678123456781234567812345678_report.pdf'' = 43 \<and>
   get_base_name bucket42 id1234 (escape_filename uw ''report.pdf'') =
     Inr ''42/W6/XX/12345678123456781234567812345678_report.pdf''"
  by (simp add: escape_report base_name_report uuid_hex_id1234 limit_filename_def
      FN_LEN_LIMIT_def)

text \<open>The stored name of the scenario does not have 44 characters.\<close>

theorem scenario_stored_name_length_counterexample:
  "length (limit_filename (uuid_hex 0x12345678123456781234567812345678 @ ''_''
                             @ escape_filename ascii_only ''report.pdf'')) \<noteq> 44"
  by (simp add: escape_report uuid_hex_id1234 limit_filename_def FN_LEN_LIMIT_def)

section \<open>Store operations: sequencing and the call log\<close>

lemma seq_ok: "seq (ok v) f s = f v s"
  by (simp add: seq_def ok_def)

lemma seq_raise: "seq (raise e) f s = (Inl e, s)"
  by (simp add: seq_def raise_def)

lemma seq_Inl: "m s = (Inl e, s') \<Longrightarrow> seq m f s = (Inl e, s')"
  by (simp add: seq_def)

lemma seq_Inr: "m s = (Inr v, s') \<Longrightarrow> seq m f s = f v s'"
  by (simp add: seq_def)

lemma call_result:
  "os_exec os c (world s) = (r, w') \<Longrightarrow>
   call os c s =
     ((case r of None \<Rightarrow> Inr () | Some e \<Rightarrow> Inl (Raised e)),
      \<lparr>world = w', calls = calls s @ [c]\<rparr>)"
  by (simp add: call_def)

lemma call_raises_only_os_exn: "call os c s = (Inl e, s') \<Longrightarrow> \<exists>x. e = Raised x"
  by (auto simp: call_def split: prod.splits option.splits)

lemma call_calls: "calls (snd (call os c s)) = calls s @ [c]"
  by (simp add: call_def split: prod.splits)

lemma get_file_path_Inr:
  "get_file_path uw be bkt ident name = Inr p \<longleftrightarrow>
     (\<exists>base. get_base_name bkt ident (escape_filename uw name) = Inr base \<and>
             p = path_join (path be) base)"
  by (auto simp: get_file_path_def split: sum.splits)

lemma get_path_collision:
  assumes "get_file_path uw be bkt ident name = Inr p" and "os_path_exists os (world s) p"
  shows "get_path uw os be bkt ident name False s = (Inl (BackendError (FileNamesCollision p)), s)"
proof -
  obtain base where b: "get_base_name bkt ident (escape_filename uw name) = Inr base"
    and p: "p = path_join (path be) base"
    using assms(1) get_file_path_Inr by blast
  show ?thesis
    using assms(2) by (simp add: get_path_def b p [symmetric] seq_raise)
qed

lemma get_base_name_error: "get_base_name bkt ident name = Inl e \<Longrightarrow> e = AssertionError"
  by (auto simp: get_base_name_def Let_def split: pyval.splits)

lemma get_path_backend_error:
  assumes "get_path uw os be bkt ident name allow_rewrite s = (Inl (BackendError m), s')"
  shows "s' = s \<and> \<not> allow_rewrite"
proof (cases "get_base_name bkt ident (escape_filename uw name)")
  case (Inl e)
  with assms show ?thesis
    by (auto simp: get_path_def raise_def dest: get_base_name_error)
next
  case (Inr base)
  let ?p = "path_join (path be) base"
  let ?mk = "\<lambda>u :: unit. seq (call os (Makedirs (dirname ?p) (511 - umask be))) (\<lambda>_. ok ?p)"
  have mk: "?mk u t \<noteq> (Inl (BackendError m), t')" for u t t'
    by (auto simp: seq_def ok_def split: prod.splits sum.splits dest: call_raises_only_os_exn)
  have del: "seq (call os c) ?mk s \<noteq> (Inl (BackendError m), s')" for c
    using mk by (auto simp: seq_def split: prod.splits sum.splits dest: call_raises_only_os_exn)
  show ?thesis
  proof (cases "os_path_exists os (world s) ?p")
    case False
    with assms Inr mk show ?thesis
      by (simp add: get_path_def Let_def seq_ok)
  next
    case True
    show ?thesis
    proof (cases allow_rewrite)
      case True
      with assms Inr \<open>os_path_exists os (world s) ?p\<close> del show ?thesis
        by (simp add: get_path_def Let_def split: if_splits)
    next
      case False
      with assms Inr True show ?thesis
        by (simp add: get_path_def Let_def seq_raise)
    qed
  qed
qed

lemma link_or_copy_raises_only_os_exn:
  "link_or_copy os filename p s = (Inl e, s') \<Longrightarrow> \<exists>x. e = Raised x"
  by (auto simp: link_or_copy_def split: prod.splits sum.splits error.splits os_exn.splits if_splits
      dest: call_raises_only_os_exn)

lemma write_steps_no_backend_error:
  "seq (link_or_copy os filename p) (\<lambda>_. after_save os be p) t \<noteq> (Inl (BackendError m), t')"
  by (auto simp: seq_def after_save_def split: prod.splits sum.splits
      dest: call_raises_only_os_exn link_or_copy_raises_only_os_exn)

lemma save_steps_no_backend_error:
  "seq (call os c) (\<lambda>_. after_save os be p) t \<noteq> (Inl (BackendError m), t')"
  by (auto simp: seq_def after_save_def split: prod.splits sum.splits
      dest: call_raises_only_os_exn)

section \<open>Name collisions\<close>

text \<open>
  C5, for a store operation that has passed its own check of the source. Let \<open>p\<close> be the
  destination derived for the bucket, the id and the name. If \<open>p\<close> exists and
  \<^verbatim>\<open>allow_rewrite\<close> is false, then \<^verbatim>\<open>store_file\<close>, given a source that is a regular
  file, and \<^verbatim>\<open>store_http_file\<close>, given an upload, both fail with the backend error
  \<^verbatim>\<open>file names collision\<close> for \<open>p\<close>, and the state they leave is the state they
  started in: no call was made, so the existing destination keeps its content.
\<close>

theorem collision_rejected:
  "(os_path_isfile os (world s) filename \<and>
    get_file_path uw be bkt ident (case nm of None \<Rightarrow> basename filename | Some n \<Rightarrow> n) = Inr p \<and>
    os_path_exists os (world s) p \<longrightarrow>
      store_file uw os be bkt ident filename nm False s =
        (Inl (BackendError (FileNamesCollision p)), s)) \<and>
   (get_file_path uw be bkt ident fname = Inr p \<and> os_path_exists os (world s) p \<longrightarrow>
      store_http_file uw os be bkt ident (HttpFile fname body) False s =
        (Inl (BackendError (FileNamesCollision p)), s))"
proof (intro conjI impI)
  assume a: "os_path_isfile os (world s) filename \<and>
    get_file_path uw be bkt ident (case nm of None \<Rightarrow> basename filename | Some n \<Rightarrow> n) = Inr p \<and>
    os_path_exists os (world s) p"
  then have "get_path uw os be bkt ident (case nm of None \<Rightarrow> basename filename | Some n \<Rightarrow> n)
               False s = (Inl (BackendError (FileNamesCollision p)), s)"
    using get_path_collision by blast
  then show "store_file uw os be bkt ident filename nm False s =
        (Inl (BackendError (FileNamesCollision p)), s)"
    using a by (simp add: store_file_def seq_Inl)
next
  assume "get_file_path uw be bkt ident fname = Inr p \<and> os_path_exists os (world s) p"
  then have "get_path uw os be bkt ident fname False s =
               (Inl (BackendError (FileNamesCollision p)), s)"
    using get_path_collision by blast
  then show "store_http_file uw os be bkt ident (HttpFile fname body) False s =
        (Inl (BackendError (FileNamesCollision p)), s)"
    by (simp add: store_http_file_def seq_Inl)
qed

text \<open>
  C9. When a store operation ends with the name-collision error, the state it leaves is
  the state it started in and its part of the call log is empty: nothing was deleted,
  no shard directory was made (the existence test and the error come before
  \<^verbatim>\<open>os.makedirs\<close>), nothing was written. It also follows that \<^verbatim>\<open>allow_rewrite\<close>
  was false.
\<close>

theorem collision_leaves_no_trace:
  "(store_file uw os be bkt ident filename nm allow_rewrite s =
      (Inl (BackendError (FileNamesCollision p)), s') \<longrightarrow>
        s' = s \<and> new_calls s s' = [] \<and> \<not> allow_rewrite) \<and>
   (store_http_file uw os be bkt ident file allow_rewrite s =
      (Inl (BackendError (FileNamesCollision p)), s') \<longrightarrow>
        s' = s \<and> new_calls s s' = [] \<and> \<not> allow_rewrite)"
proof (rule conjI; rule impI)
  let ?name = "case nm of None \<Rightarrow> basename filename | Some n \<Rightarrow> n"
  assume a: "store_file uw os be bkt ident filename nm allow_rewrite s =
      (Inl (BackendError (FileNamesCollision p)), s')"
  then have isf: "os_path_isfile os (world s) filename"
    by (auto simp: store_file_def raise_def split: if_splits)
  obtain r t where g: "get_path uw os be bkt ident ?name allow_rewrite s = (r, t)"
    by (cases "get_path uw os be bkt ident ?name allow_rewrite s")
  have "r = Inl (BackendError (FileNamesCollision p)) \<and> t = s'"
  proof (cases r)
    case (Inl e)
    with a isf g show ?thesis
      by (simp add: store_file_def seq_Inl)
  next
    case (Inr q)
    with a isf g show ?thesis
      by (simp add: store_file_def seq_Inr write_steps_no_backend_error)
  qed
  with g have "s' = s \<and> \<not> allow_rewrite"
    using get_path_backend_error by blast
  then show "s' = s \<and> new_calls s s' = [] \<and> \<not> allow_rewrite"
    by (simp add: new_calls_def)
next
  assume a: "store_http_file uw os be bkt ident file allow_rewrite s =
      (Inl (BackendError (FileNamesCollision p)), s')"
  then obtain fname body where f: "file = HttpFile fname body"
    by (cases "file") (auto simp: store_http_file_def raise_def)
  obtain r t where g: "get_path uw os be bkt ident fname allow_rewrite s = (r, t)"
    by (cases "get_path uw os be bkt ident fname allow_rewrite s")
  have "r = Inl (BackendError (FileNamesCollision p)) \<and> t = s'"
  proof (cases r)
    case (Inl e)
    with a f g show ?thesis
      by (simp add: store_http_file_def seq_Inl)
  next
    case (Inr q)
    with a f g show ?thesis
      by (simp add: store_http_file_def seq_Inr save_steps_no_backend_error)
  qed
  with g have "s' = s \<and> \<not> allow_rewrite"
    using get_path_backend_error by blast
  then show "s' = s \<and> new_calls s s' = [] \<and> \<not> allow_rewrite"
    by (simp add: new_calls_def)
qed

section \<open>Runs on the small file system\<close>

lemma basename_tmp_report: "basename ''/tmp/report.pdf'' = ''report.pdf''"
  by (simp add: basename_def rfind_sep_end_def)

lemma dirname_report_dest: "dirname report_dest = ''/srv/files/42/W6/XX''"
  by (simp add: dirname_def rfind_sep_end_def rstrip_char_def report_dest_def Let_def)

lemma old_world_tests:
  "os_path_isfile (toy_os faults) (world (start old_world)) ''/tmp/report.pdf''"
  "\<not> os_path_isfile (toy_os faults) (world (start old_world)) ''/tmp/gone.pdf''"
  "os_path_exists (toy_os faults) (world (start old_world)) report_dest"
  "\<not> os_path_islink (toy_os faults) (world (start old_world)) report_dest"
  by (simp_all add: toy_os_def start_def old_world_def report_dest_def)

text \<open>
  With the destination present and rewriting off, both store operations are refused and
  the world is as before.
\<close>

theorem collision_rejected_witness:
  "store_file ascii_only (toy_os no_faults) srv bucket42 id1234 ''/tmp/report.pdf'' None False
     (start old_world) =
     (Inl (BackendError (FileNamesCollision report_dest)), start old_world) \<and>
   store_http_file ascii_only (toy_os no_faults) srv bucket42 id1234
     (HttpFile ''report.pdf'' ''new'') False (start old_world) =
     (Inl (BackendError (FileNamesCollision report_dest)), start old_world)"
proof -
  have fp: "get_file_path ascii_only srv bucket42 id1234
              (case None of None \<Rightarrow> basename ''/tmp/report.pdf'' | Some n \<Rightarrow> n) = Inr report_dest"
    by (simp add: basename_tmp_report file_path_report)
  from collision_rejected [where os = "toy_os no_faults" and s = "start old_world"
      and filename = "''/tmp/report.pdf''" and nm = None and uw = ascii_only and be = srv
      and bkt = bucket42 and ident = id1234 and p = report_dest and fname = "''report.pdf''"
      and body = "''new''"]
  show ?thesis
    using fp old_world_tests file_path_report by blast
qed

text \<open>
  The destination exists and rewriting is off, but the source is missing:
  \<^verbatim>\<open>store_file\<close> fails with \<^verbatim>\<open>unable to locate file\<close>, not with the collision.
\<close>

theorem collision_after_source_check_counterexample:
  "os_path_exists (toy_os no_faults) (world (start old_world)) report_dest \<and>
   get_file_path ascii_only srv bucket42 id1234 ''report.pdf'' = Inr report_dest \<and>
   store_file ascii_only (toy_os no_faults) srv bucket42 id1234 ''/tmp/gone.pdf''
     (Some ''report.pdf'') False (start old_world) =
     (Inl (BackendError (UnableToLocateFile ''/tmp/gone.pdf'')), start old_world)"
  by (simp add: old_world_tests file_path_report store_file_def raise_def)

text \<open>The refused run made no call.\<close>

theorem collision_leaves_no_trace_witness:
  "snd (store_file ascii_only (toy_os no_faults) srv bucket42 id1234 ''/tmp/report.pdf'' None
          False (start old_world)) = start old_world \<and>
   new_calls (start old_world)
     (snd (store_file ascii_only (toy_os no_faults) srv bucket42 id1234 ''/tmp/report.pdf'' None
             False (start old_world))) = []"
proof -
  have g: "get_path ascii_only (toy_os no_faults) srv bucket42 id1234 ''report.pdf'' False
             (start old_world) =
           (Inl (BackendError (FileNamesCollision report_dest)), start old_world)"
    by (rule get_path_collision [OF file_path_report old_world_tests(3)])
  have run: "store_file ascii_only (toy_os no_faults) srv bucket42 id1234 ''/tmp/report.pdf''
               None False (start old_world) =
             (Inl (BackendError (FileNamesCollision report_dest)), start old_world)"
    by (simp add: store_file_def old_world_tests basename_tmp_report seq_def g)
  from collision_leaves_no_trace [where os = "toy_os no_faults" and s = "start old_world"
      and s' = "start old_world" and filename = "''/tmp/report.pdf''" and nm = None
      and uw = ascii_only and be = srv and bkt = bucket42 and ident = id1234
      and p = report_dest and allow_rewrite = False] run
  show ?thesis
    by simp
qed

section \<open>The assertion on the object id\<close>

lemma call_fst_raises_only_os_exn: "fst (call os c s) = Inl e \<Longrightarrow> \<exists>x. e = Raised x"
  by (auto simp: call_def split: prod.splits option.splits)

lemma get_path_uuid_no_assertion:
  "get_path uw os be bkt (UUID u) name allow_rewrite s \<noteq> (Inl AssertionError, s')"
  by (auto simp: get_path_def get_base_name_def Let_def seq_def ok_def raise_def
      split: prod.splits sum.splits if_splits dest: call_raises_only_os_exn)

lemma store_file_uuid_no_assertion:
  "fst (store_file uw os be bkt (UUID u) filename nm allow_rewrite s) \<noteq> Inl AssertionError"
proof -
  let ?name = "case nm of None \<Rightarrow> basename filename | Some n \<Rightarrow> n"
  obtain r t where g: "get_path uw os be bkt (UUID u) ?name allow_rewrite s = (r, t)"
    by (cases "get_path uw os be bkt (UUID u) ?name allow_rewrite s")
  show ?thesis
  proof (cases "os_path_isfile os (world s) filename")
    case False
    then show ?thesis by (simp add: store_file_def raise_def)
  next
    case True
    show ?thesis
    proof (cases r)
      case (Inl e)
      with g have "e \<noteq> AssertionError"
        using get_path_uuid_no_assertion by blast
      with g Inl True show ?thesis
        by (simp add: store_file_def seq_Inl)
    next
      case (Inr q)
      have "fst (seq (link_or_copy os filename q) (\<lambda>_. after_save os be q) t) \<noteq> Inl AssertionError"
        by (auto simp: seq_def after_save_def split: prod.splits sum.splits
            dest: call_fst_raises_only_os_exn link_or_copy_raises_only_os_exn)
      with g Inr True show ?thesis
        by (simp add: store_file_def seq_Inr)
    qed
  qed
qed

lemma store_http_file_uuid_no_assertion:
  "fst (store_http_file uw os be bkt (UUID u) upl allow_rewrite s) \<noteq> Inl AssertionError"
proof (cases upl)
  case OtherObject
  then show ?thesis by (simp add: store_http_file_def raise_def)
next
  case (HttpFile fname body)
  obtain r t where g: "get_path uw os be bkt (UUID u) fname allow_rewrite s = (r, t)"
    by (cases "get_path uw os be bkt (UUID u) fname allow_rewrite s")
  show ?thesis
  proof (cases r)
    case (Inl e)
    with g have "e \<noteq> AssertionError"
      using get_path_uuid_no_assertion by blast
    with g Inl HttpFile show ?thesis
      by (simp add: store_http_file_def seq_Inl)
  next
    case (Inr q)
    have "fst (seq (call os (SaveTo upl q)) (\<lambda>_. after_save os be q) t) \<noteq> Inl AssertionError"
      by (auto simp: seq_def after_save_def split: prod.splits sum.splits
          dest: call_raises_only_os_exn call_fst_raises_only_os_exn)
    with g Inr HttpFile show ?thesis
      by (simp add: store_http_file_def seq_Inr)
  qed
qed

lemma get_base_name_non_uuid:
  "\<forall>u. ident \<noteq> UUID u \<Longrightarrow> get_base_name bkt ident name = Inl AssertionError"
  by (cases ident) (simp_all add: get_base_name_def)

text \<open>
  C8, as the code orders its checks. For an id that is not a UUID,
  \<^verbatim>\<open>get_file_path\<close> and \<^verbatim>\<open>get_file_pub_url\<close> fail on the assertion. The store
  operations test their source first: \<^verbatim>\<open>store_file\<close> fails on the assertion when the
  source is a regular file and with \<^verbatim>\<open>unable to locate file\<close> when it is not;
  \<^verbatim>\<open>store_http_file\<close> fails on the assertion when it is given an upload and with
  \<^verbatim>\<open>unsupported file object\<close> otherwise. In every one of these cases the state is
  left as it was: no path was derived and no call was made. For a UUID the assertion
  passes: \<^verbatim>\<open>_get_base_name\<close> and the two lookups return a path, and no store
  operation ends with an assertion error.
\<close>

theorem non_uuid_id_fails_without_effect:
  "((\<forall>u. ident \<noteq> UUID u) \<longrightarrow>
      get_file_path uw be bkt ident filename = Inl AssertionError \<and>
      get_file_pub_url uw be bkt ident filename = Inl AssertionError \<and>
      store_file uw os be bkt ident filename nm allow_rewrite s =
        ((if os_path_isfile os (world s) filename then Inl AssertionError
          else Inl (BackendError (UnableToLocateFile filename))), s) \<and>
      store_http_file uw os be bkt ident upl allow_rewrite s =
        ((case upl of HttpFile fname body \<Rightarrow> Inl AssertionError
          | OtherObject \<Rightarrow> Inl (BackendError UnsupportedFileObject)), s)) \<and>
   (\<exists>rel. get_base_name bkt (UUID u) name = Inr rel) \<and>
   (\<exists>p. get_file_path uw be bkt (UUID u) filename = Inr p) \<and>
   (\<exists>p. get_file_pub_url uw be bkt (UUID u) filename = Inr p) \<and>
   fst (store_file uw os be bkt (UUID u) filename nm allow_rewrite s) \<noteq> Inl AssertionError \<and>
   fst (store_http_file uw os be bkt (UUID u) upl allow_rewrite s) \<noteq> Inl AssertionError"
proof (intro conjI impI)
  assume n: "\<forall>u. ident \<noteq> UUID u"
  show "get_file_path uw be bkt ident filename = Inl AssertionError"
    using n by (simp add: get_file_path_def get_base_name_non_uuid)
  show "get_file_pub_url uw be bkt ident filename = Inl AssertionError"
    using n by (simp add: get_file_pub_url_def get_base_name_non_uuid)
  have g: "get_path uw os be bkt ident x allow_rewrite s = (Inl AssertionError, s)" for x
    using n by (simp add: get_path_def get_base_name_non_uuid raise_def)
  show "store_file uw os be bkt ident filename nm allow_rewrite s =
        ((if os_path_isfile os (world s) filename then Inl AssertionError
          else Inl (BackendError (UnableToLocateFile filename))), s)"
    by (simp add: store_file_def seq_def g raise_def)
  show "store_http_file uw os be bkt ident upl allow_rewrite s =
        ((case upl of HttpFile fname body \<Rightarrow> Inl AssertionError
          | OtherObject \<Rightarrow> Inl (BackendError UnsupportedFileObject)), s)"
    by (cases upl) (simp_all add: store_http_file_def seq_def g raise_def)
next
  show "\<exists>rel. get_base_name bkt (UUID u) name = Inr rel"
    by (simp add: get_base_name_def Let_def)
  show "\<exists>p. get_file_path uw be bkt (UUID u) filename = Inr p"
    by (simp add: get_file_path_def get_base_name_def Let_def)
  show "\<exists>p. get_file_pub_url uw be bkt (UUID u) filename = Inr p"
    by (simp add: get_file_pub_url_def get_base_name_def Let_def)
  show "fst (store_file uw os be bkt (UUID u) filename nm allow_rewrite s) \<noteq> Inl AssertionError"
    by (rule store_file_uuid_no_assertion)
  show "fst (store_http_file uw os be bkt (UUID u) upl allow_rewrite s) \<noteq> Inl AssertionError"
    by (rule store_http_file_uuid_no_assertion)
qed

text \<open>A string in the place of the id, with the source present.\<close>

theorem non_uuid_id_fails_without_effect_witness:
  "get_file_path ascii_only srv bucket42 (PyStr ''12345678'') ''/tmp/report.pdf'' =
     Inl AssertionError \<and>
   get_file_pub_url ascii_only srv bucket42 (PyStr ''12345678'') ''/tmp/report.pdf'' =
     Inl AssertionError \<and>
   store_file ascii_only (toy_os no_faults) srv bucket42 (PyStr ''12345678'') ''/tmp/report.pdf''
     None True (start old_world) = (Inl AssertionError, start old_world) \<and>
   store_http_file ascii_only (toy_os no_faults) srv bucket42 (PyStr ''12345678'')
     (HttpFile ''report.pdf'' ''new'') True (start old_world) =
     (Inl AssertionError, start old_world)"
  using non_uuid_id_fails_without_effect [where ident = "PyStr ''12345678''" and uw = ascii_only
      and be = srv and bkt = bucket42 and filename = "''/tmp/report.pdf''" and nm = None
      and os = "toy_os no_faults" and s = "start old_world" and allow_rewrite = True
      and upl = "HttpFile ''report.pdf'' ''new''" and u = 0 and name = "[]"]
  by (simp add: old_world_tests)

text \<open>
  A string in the place of the id, with the source missing, or with an object that is
  no upload: the operations fail, but not on the assertion.
\<close>

theorem non_uuid_id_source_check_first_counterexample:
  "store_file ascii_only (toy_os no_faults) srv bucket42 (PyStr ''12345678'') ''/tmp/gone.pdf''
     None False (start old_world) =
     (Inl (BackendError (UnableToLocateFile ''/tmp/gone.pdf'')), start old_world) \<and>
   store_http_file ascii_only (toy_os no_faults) srv bucket42 (PyStr ''12345678'')
     OtherObject False (start old_world) =
     (Inl (BackendError UnsupportedFileObject), start old_world)"
  by (simp add: old_world_tests store_file_def store_http_file_def raise_def)

section \<open>The world changes only through the logged calls\<close>

lemma seq_assoc: "seq (seq m f) g = seq m (\<lambda>v. seq (f v) g)"
  by (rule ext) (simp add: seq_def split: prod.splits sum.splits)

lemma replay_append: "replay os (cs @ ds) w = replay os ds (replay os cs w)"
  by (simp add: replay_def)

lemma extends_iff:
  "extends os s s' \<longleftrightarrow> (\<exists>cs. calls s' = calls s @ cs \<and> world s' = replay os cs (world s))"
proof
  assume e: "extends os s s'"
  have "calls s' = take (length (calls s)) (calls s') @ drop (length (calls s)) (calls s')"
    by simp
  with e have "calls s' = calls s @ new_calls s s'"
    by (simp add: extends_def new_calls_def)
  with e show "\<exists>cs. calls s' = calls s @ cs \<and> world s' = replay os cs (world s)"
    by (auto simp: extends_def)
next
  assume "\<exists>cs. calls s' = calls s @ cs \<and> world s' = replay os cs (world s)"
  then show "extends os s s'"
    by (auto simp: extends_def new_calls_def)
qed

lemma extends_refl: "extends os s s"
  by (simp add: extends_iff replay_def)

lemma extends_trans: "extends os s t \<Longrightarrow> extends os t u \<Longrightarrow> extends os s u"
  by (auto simp: extends_iff replay_append)

lemma extends_call: "extends os s (snd (call os c s))"
  by (auto simp: extends_iff call_def replay_def split: prod.splits)

lemma extends_seq:
  assumes "\<And>t. extends os t (snd (m t))" and "\<And>v t. extends os t (snd (f v t))"
  shows "extends os s (snd (seq m f s))"
proof (cases "m s")
  case (Pair r t)
  have st: "extends os s t"
    using assms(1) [of s] Pair by simp
  show ?thesis
  proof (cases r)
    case (Inl e)
    with Pair st show ?thesis by (simp add: seq_def)
  next
    case (Inr v)
    with Pair have "snd (seq m f s) = snd (f v t)"
      by (simp add: seq_def)
    with st assms(2) [of t v] show ?thesis
      by (auto intro: extends_trans)
  qed
qed

lemma extends_ok: "extends os s (snd (ok v s))"
  by (simp add: ok_def extends_refl)

lemma extends_raise: "extends os s (snd (raise e s))"
  by (simp add: raise_def extends_refl)

lemma extends_after_save: "extends os s (snd (after_save os be p s))"
  by (simp add: after_save_def extends_call)

lemma extends_link_or_copy: "extends os s (snd (link_or_copy os filename p s))"
proof (cases "call os (Link filename p) s")
  case (Pair r t)
  have st: "extends os s t"
    using extends_call [of os s "Link filename p"] Pair by simp
  have tt: "extends os s (snd (call os (Copy filename p) t))"
    using st extends_call by (rule extends_trans)
  show ?thesis
    using Pair st tt
    by (auto simp: link_or_copy_def split: sum.splits error.splits os_exn.splits)
qed

lemma extends_get_path: "extends os s (snd (get_path uw os be bkt ident name allow_rewrite s))"
proof (cases "get_base_name bkt ident (escape_filename uw name)")
  case (Inl e)
  then show ?thesis
    by (simp add: get_path_def extends_raise)
next
  case (Inr base)
  have "extends os t (snd ((if os_path_exists os (world s) p then
                     (if allow_rewrite then
                        (if os_path_islink os (world s) p then call os (Unlink p)
                         else call os (Remove p))
                      else raise (BackendError (FileNamesCollision p)))
                   else ok ()) t))" for t p
    by (simp add: extends_call extends_raise extends_ok)
  moreover have "extends os t (snd (seq (call os c) (\<lambda>_. ok p) t))" for t c p
    by (rule extends_seq) (simp_all add: extends_call extends_ok)
  ultimately show ?thesis
    unfolding get_path_def Inr Let_def sum.case by (rule extends_seq)
qed

lemma extends_store_file:
  "extends os s (snd (store_file uw os be bkt ident filename nm allow_rewrite s))"
proof (cases "os_path_isfile os (world s) filename")
  case False
  then show ?thesis
    by (simp add: store_file_def extends_raise)
next
  case True
  have w: "extends os t (snd (seq (link_or_copy os filename p) (\<lambda>_. after_save os be p) t))"
    for t p
    by (rule extends_seq) (simp_all add: extends_link_or_copy extends_after_save)
  have "extends os s (snd (seq (get_path uw os be bkt ident
       (case nm of None \<Rightarrow> basename filename | Some n \<Rightarrow> n) allow_rewrite)
       (\<lambda>p. seq (link_or_copy os filename p) (\<lambda>_. after_save os be p)) s))"
    by (rule extends_seq) (simp_all add: extends_get_path w)
  with True show ?thesis
    by (simp add: store_file_def)
qed

lemma extends_store_http_file:
  "extends os s (snd (store_http_file uw os be bkt ident upl allow_rewrite s))"
proof (cases upl)
  case OtherObject
  then show ?thesis
    by (simp add: store_http_file_def extends_raise)
next
  case (HttpFile fname body)
  have w: "extends os t (snd (seq (call os c) (\<lambda>_. after_save os be p) t))" for t p c
    by (rule extends_seq) (simp_all add: extends_call extends_after_save)
  have "extends os s (snd (seq (get_path uw os be bkt ident fname allow_rewrite)
       (\<lambda>p. seq (call os (SaveTo upl p)) (\<lambda>_. after_save os be p)) s))"
    by (rule extends_seq) (simp_all add: extends_get_path w)
  with HttpFile show ?thesis
    by (simp add: store_http_file_def)
qed

lemma extends_init_backend:
  "extends os s (snd (init_backend os auto_create_path umask_cfg node_umask path_arg pub s))"
  by (auto simp: init_backend_def Let_def extends_ok extends_raise extends_call
      intro!: extends_seq)

section \<open>Hard link first, copy across devices\<close>

lemma new_calls_appended: "new_calls s \<lparr>world = w, calls = calls s @ cs\<rparr> = cs"
  by (simp add: new_calls_def)

lemma link_or_copy_cases:
  assumes "os_exec os (Link filename p) (world s1) = (r, w2)"
  shows "link_or_copy os filename p s1 =
     (case r of
        None \<Rightarrow> (Inr (), \<lparr>world = w2, calls = calls s1 @ [Link filename p]\<rparr>)
      | Some e \<Rightarrow>
          (if e = OSError EXDEV
           then call os (Copy filename p) \<lparr>world = w2, calls = calls s1 @ [Link filename p]\<rparr>
           else (Inl (Raised e), \<lparr>world = w2, calls = calls s1 @ [Link filename p]\<rparr>)))"
  by (simp add: link_or_copy_def call_result [OF assms] split: option.splits os_exn.splits)

lemma calls_after_call: "calls (snd (call os c s)) = calls s @ [c]"
  by (simp add: call_def split: prod.splits)

lemma calls_after_two_calls:
  "calls (snd (seq (call os c) (\<lambda>_. call os c') s)) = calls s @ [c] \<or>
   calls (snd (seq (call os c) (\<lambda>_. call os c') s)) = calls s @ [c, c']"
  by (auto simp: seq_def call_def split: prod.splits sum.splits option.splits)

text \<open>
  C6. Once the path \<open>p\<close> is resolved, leaving the state \<open>s1\<close>, \<^verbatim>\<open>store_file\<close> first
  calls \<^verbatim>\<open>os.link(filename, p)\<close>. It calls \<^verbatim>\<open>shutil.copy(filename, p)\<close> after it
  if and only if the link raised an \<^verbatim>\<open>OSError\<close> whose \<^verbatim>\<open>errno\<close> is \<^verbatim>\<open>EXDEV\<close>.
  Any other exception \<open>e\<close> of the link ends the operation: it is returned as it was
  raised, in the state the failed link left, and no further call is made.
\<close>

theorem link_falls_back_to_copy_only_on_exdev:
  assumes isf: "os_path_isfile os (world s) filename"
    and gp: "get_path uw os be bkt ident (case nm of None \<Rightarrow> basename filename | Some n \<Rightarrow> n)
               allow_rewrite s = (Inr p, s1)"
    and ln: "os_exec os (Link filename p) (world s1) = (r, w2)"
  shows "(\<exists>rest. new_calls s1 (snd (store_file uw os be bkt ident filename nm allow_rewrite s)) =
                   Link filename p # rest \<and>
                 (Copy filename p \<in> set rest \<longleftrightarrow> r = Some (OSError EXDEV))) \<and>
         (\<forall>e. r = Some e \<and> e \<noteq> OSError EXDEV \<longrightarrow>
              store_file uw os be bkt ident filename nm allow_rewrite s =
                (Inl (Raised e), \<lparr>world = w2, calls = calls s1 @ [Link filename p]\<rparr>))"
proof -
  let ?s2 = "\<lparr>world = w2, calls = calls s1 @ [Link filename p]\<rparr>"
  let ?run = "store_file uw os be bkt ident filename nm allow_rewrite s"
  have run: "?run = seq (link_or_copy os filename p) (\<lambda>_. after_save os be p) s1"
    using isf gp by (simp add: store_file_def seq_def)
  show ?thesis
  proof (cases r)
    case None
    then have "?run = call os (Chmod p (438 - umask be)) ?s2"
      by (simp add: run seq_def link_or_copy_cases [OF ln] after_save_def)
    then have "calls (snd ?run) = calls s1 @ [Link filename p, Chmod p (438 - umask be)]"
      by (simp add: calls_after_call)
    then have "new_calls s1 (snd ?run) = Link filename p # [Chmod p (438 - umask be)]"
      by (simp add: new_calls_def)
    with None show ?thesis by auto
  next
    case (Some e)
    show ?thesis
    proof (cases "e = OSError EXDEV")
      case True
      then have "?run = seq (call os (Copy filename p))
                          (\<lambda>_. call os (Chmod p (438 - umask be))) ?s2"
        using Some by (simp add: run seq_def link_or_copy_cases [OF ln] after_save_def)
      then have "calls (snd ?run) = calls s1 @ [Link filename p, Copy filename p] \<or>
                 calls (snd ?run) =
                   calls s1 @ [Link filename p, Copy filename p, Chmod p (438 - umask be)]"
        using calls_after_two_calls [of os "Copy filename p" "Chmod p (438 - umask be)" ?s2]
        by simp
      then have "new_calls s1 (snd ?run) = Link filename p # [Copy filename p] \<or>
                 new_calls s1 (snd ?run) =
                   Link filename p # [Copy filename p, Chmod p (438 - umask be)]"
        by (auto simp: new_calls_def)
      with Some True show ?thesis by auto
    next
      case False
      then have r: "?run = (Inl (Raised e), ?s2)"
        using Some by (simp add: run seq_def link_or_copy_cases [OF ln])
      then have "new_calls s1 (snd ?run) = Link filename p # []"
        by (simp add: new_calls_def)
      with Some False r show ?thesis by auto
    qed
  qed
qed

lemma toy_get_path_fresh:
  assumes "faults (Makedirs ''/srv/files/42/W6/XX'' 493) = None"
  shows "get_path uw (toy_os faults) srv bucket42 id1234 ''report.pdf'' ar (start src_world) =
           (Inr report_dest,
            \<lparr>world = src_world, calls = [Makedirs ''/srv/files/42/W6/XX'' 493]\<rparr>)"
proof -
  have ne: "\<not> os_path_exists (toy_os faults) src_world report_dest"
    by (simp add: toy_os_def src_world_def report_dest_def)
  have pj: "path_join (path srv) ''42/W6/XX/12345678123456781234567812345678_report.pdf'' =
              report_dest"
    by (simp add: path_join_def srv_def report_dest_def)
  have um: "511 - umask srv = 493"
    by (simp add: srv_def)
  have ex: "os_exec (toy_os faults) (Makedirs ''/srv/files/42/W6/XX'' 493) src_world =
              (None, src_world)"
    using assms by (simp add: toy_os_def toy_exec_def)
  show ?thesis
    by (simp add: get_path_def escape_report base_name_report pj start_def ne seq_def ok_def
        call_def ex dirname_report_dest um)
qed

lemma toy_link_raises:
  "os_exec (toy_os (link_raises e)) (Link src dst) w = (Some e, w)"
  by (simp add: toy_os_def toy_exec_def link_raises_def)

text \<open>
  The link raises \<^verbatim>\<open>EXDEV\<close>: the copy follows. The link raises \<^verbatim>\<open>EPERM\<close> (errno 1):
  the operation ends with that error, after the link and nothing else.
\<close>

theorem link_falls_back_to_copy_only_on_exdev_witness:
  "(\<exists>rest. new_calls \<lparr>world = src_world, calls = [Makedirs ''/srv/files/42/W6/XX'' 493]\<rparr>
             (snd (store_file ascii_only (toy_os (link_raises (OSError EXDEV))) srv bucket42
                     id1234 ''/tmp/report.pdf'' None False (start src_world))) =
             Link ''/tmp/report.pdf'' report_dest # rest \<and>
           Copy ''/tmp/report.pdf'' report_dest \<in> set rest) \<and>
   store_file ascii_only (toy_os (link_raises (OSError 1))) srv bucket42 id1234
     ''/tmp/report.pdf'' None False (start src_world) =
     (Inl (Raised (OSError 1)),
      \<lparr>world = src_world,
         calls = [Makedirs ''/srv/files/42/W6/XX'' 493, Link ''/tmp/report.pdf'' report_dest]\<rparr>)"
proof -
  let ?s1 = "\<lparr>world = src_world, calls = [Makedirs ''/srv/files/42/W6/XX'' 493]\<rparr>"
  have isf: "os_path_isfile (toy_os (link_raises e)) (world (start src_world)) ''/tmp/report.pdf''"
    for e
    by (simp add: toy_os_def start_def src_world_def)
  have gp: "get_path ascii_only (toy_os (link_raises e)) srv bucket42 id1234
              (case None of None \<Rightarrow> basename ''/tmp/report.pdf'' | Some n \<Rightarrow> n) False
              (start src_world) = (Inr report_dest, ?s1)" for e
    by (simp add: basename_tmp_report toy_get_path_fresh link_raises_def)
  have ln: "os_exec (toy_os (link_raises e)) (Link ''/tmp/report.pdf'' report_dest) (world ?s1) =
              (Some e, src_world)" for e
    by (simp add: toy_link_raises)
  have ne: "OSError 1 \<noteq> OSError EXDEV"
    by (simp add: EXDEV_def)
  from link_falls_back_to_copy_only_on_exdev [OF isf gp ln, of "OSError EXDEV"]
    link_falls_back_to_copy_only_on_exdev [OF isf gp ln, of "OSError 1"] ne
  show ?thesis
    by simp
qed

section \<open>Replacing an existing destination\<close>

lemma seq_at: "m s = m' s \<Longrightarrow> seq m f s = seq m' f s"
  by (simp add: seq_def)

lemma first_call_stays_first:
  assumes "\<And>v t. extends os t (snd (k v t))"
  shows "\<exists>rest. new_calls s (snd (seq (call os c) k s)) = c # rest"
proof (cases "call os c s")
  case (Pair r t)
  have ct: "calls t = calls s @ [c]"
    using calls_after_call [of os c s] Pair by simp
  show ?thesis
  proof (cases r)
    case (Inl e)
    with Pair ct show ?thesis
      by (simp add: seq_def new_calls_def)
  next
    case (Inr v)
    with Pair have sn: "snd (seq (call os c) k s) = snd (k v t)"
      by (simp add: seq_def)
    obtain cs where "calls (snd (k v t)) = calls t @ cs"
      using assms [of t v] extends_iff by blast
    with ct sn show ?thesis
      by (simp add: new_calls_def)
  qed
qed

text \<open>
  C10. Let \<open>p\<close> be the derived destination, let it exist, and let \<^verbatim>\<open>allow_rewrite\<close> be
  true. Then the first call of either store operation is the deletion of \<open>p\<close>:
  \<^verbatim>\<open>os.unlink\<close> when \<open>p\<close> is a symbolic link, \<^verbatim>\<open>os.remove\<close> otherwise; so it comes
  before any link, copy or save. If the deletion and \<^verbatim>\<open>os.makedirs\<close> succeed and then
  the link fails (with anything but \<^verbatim>\<open>EXDEV\<close>), or the copy after an \<^verbatim>\<open>EXDEV\<close>
  fails, or the streamed save fails, the operation ends with that exception in the
  world the failed call left, and the failed call is the last one it made: nothing puts
  the deleted content back.
\<close>

theorem rewrite_deletes_first_and_is_not_undone:
  assumes fp: "get_file_path uw be bkt ident name = Inr p"
    and ex: "os_path_exists os (world s) p"
    and del: "del = (if os_path_islink os (world s) p then Unlink p else Remove p)"
    and mk: "mk = Makedirs (dirname p) (511 - umask be)"
    and isf: "os_path_isfile os (world s) filename"
    and nm: "(case nm of None \<Rightarrow> basename filename | Some n \<Rightarrow> n) = name"
  shows "(\<exists>rest. new_calls s (snd (store_file uw os be bkt ident filename nm True s)) =
                   del # rest) \<and>
         (\<exists>rest. new_calls s (snd (store_http_file uw os be bkt ident (HttpFile name body)
                                      True s)) = del # rest) \<and>
         (\<forall>w1 w2 w3 e.
            os_exec os del (world s) = (None, w1) \<and> os_exec os mk w1 = (None, w2) \<and>
            os_exec os (Link filename p) w2 = (Some e, w3) \<and> e \<noteq> OSError EXDEV \<longrightarrow>
              store_file uw os be bkt ident filename nm True s =
                (Inl (Raised e),
                 \<lparr>world = w3, calls = calls s @ [del, mk, Link filename p]\<rparr>)) \<and>
         (\<forall>w1 w2 w3 w4 e.
            os_exec os del (world s) = (None, w1) \<and> os_exec os mk w1 = (None, w2) \<and>
            os_exec os (Link filename p) w2 = (Some (OSError EXDEV), w3) \<and>
            os_exec os (Copy filename p) w3 = (Some e, w4) \<longrightarrow>
              store_file uw os be bkt ident filename nm True s =
                (Inl (Raised e),
                 \<lparr>world = w4,
                    calls = calls s @ [del, mk, Link filename p, Copy filename p]\<rparr>)) \<and>
         (\<forall>w1 w2 w3 e.
            os_exec os del (world s) = (None, w1) \<and> os_exec os mk w1 = (None, w2) \<and>
            os_exec os (SaveTo (HttpFile name body) p) w2 = (Some e, w3) \<longrightarrow>
              store_http_file uw os be bkt ident (HttpFile name body) True s =
                (Inl (Raised e),
                 \<lparr>world = w3, calls = calls s @ [del, mk, SaveTo (HttpFile name body) p]\<rparr>))"
proof -
  obtain base where b: "get_base_name bkt ident (escape_filename uw name) = Inr base"
    and p: "p = path_join (path be) base"
    using fp get_file_path_Inr by blast
  have gp: "get_path uw os be bkt ident name True s =
              seq (call os del) (\<lambda>_. seq (call os mk) (\<lambda>_. ok p)) s"
    using ex by (simp add: get_path_def b p [symmetric] del mk)
  let ?link_step = "\<lambda>q. seq (link_or_copy os filename q) (\<lambda>_. after_save os be q)"
  let ?save_step = "\<lambda>q. seq (call os (SaveTo (HttpFile name body) q)) (\<lambda>_. after_save os be q)"
  have re: "seq (get_path uw os be bkt ident name True) k s =
              seq (call os del) (\<lambda>_. seq (seq (call os mk) (\<lambda>_. ok p)) k) s" for k
  proof -
    have "seq (get_path uw os be bkt ident name True) k s =
            seq (seq (call os del) (\<lambda>_. seq (call os mk) (\<lambda>_. ok p))) k s"
      using gp by (rule seq_at)
    then show ?thesis
      by (simp add: seq_assoc)
  qed
  have sf: "store_file uw os be bkt ident filename nm True s =
              seq (call os del) (\<lambda>_. seq (seq (call os mk) (\<lambda>_. ok p)) ?link_step) s"
    using isf by (simp add: store_file_def nm re)
  have sh: "store_http_file uw os be bkt ident (HttpFile name body) True s =
              seq (call os del) (\<lambda>_. seq (seq (call os mk) (\<lambda>_. ok p)) ?save_step) s"
    by (simp add: store_http_file_def re)
  have mkok: "extends os t (snd (seq (call os mk) (\<lambda>_. ok p) t))" for t
    by (rule extends_seq) (simp_all add: extends_call extends_ok)
  have w: "extends os t (snd (?link_step q t))" for t q
    by (rule extends_seq) (simp_all add: extends_link_or_copy extends_after_save)
  have sv: "extends os t (snd (?save_step q t))" for t q
    by (rule extends_seq) (simp_all add: extends_call extends_after_save)
  have k1: "extends os t (snd (seq (seq (call os mk) (\<lambda>_. ok p)) ?link_step t))" for t
    by (rule extends_seq) (simp_all add: mkok w)
  have k2: "extends os t (snd (seq (seq (call os mk) (\<lambda>_. ok p)) ?save_step t))" for t
    by (rule extends_seq) (simp_all add: mkok sv)
  have first: "\<exists>rest. new_calls s (snd (store_file uw os be bkt ident filename nm True s)) =
                  del # rest"
    unfolding sf by (rule first_call_stays_first) (rule k1)
  have first_http: "\<exists>rest. new_calls s (snd (store_http_file uw os be bkt ident
                      (HttpFile name body) True s)) = del # rest"
    unfolding sh by (rule first_call_stays_first) (rule k2)
  have link_fails: "store_file uw os be bkt ident filename nm True s =
                (Inl (Raised e), \<lparr>world = w3, calls = calls s @ [del, mk, Link filename p]\<rparr>)"
    if "os_exec os del (world s) = (None, w1) \<and> os_exec os mk w1 = (None, w2) \<and>
        os_exec os (Link filename p) w2 = (Some e, w3) \<and> e \<noteq> OSError EXDEV"
    for w1 w2 w3 e
    using that
    by (simp add: sf seq_def call_def ok_def link_or_copy_def split: os_exn.splits)
  have copy_fails: "store_file uw os be bkt ident filename nm True s =
                (Inl (Raised e),
                 \<lparr>world = w4, calls = calls s @ [del, mk, Link filename p, Copy filename p]\<rparr>)"
    if "os_exec os del (world s) = (None, w1) \<and> os_exec os mk w1 = (None, w2) \<and>
        os_exec os (Link filename p) w2 = (Some (OSError EXDEV), w3) \<and>
        os_exec os (Copy filename p) w3 = (Some e, w4)"
    for w1 w2 w3 w4 e
    using that
    by (simp add: sf seq_def call_def ok_def link_or_copy_def)
  have save_fails: "store_http_file uw os be bkt ident (HttpFile name body) True s =
                (Inl (Raised e),
                 \<lparr>world = w3, calls = calls s @ [del, mk, SaveTo (HttpFile name body) p]\<rparr>)"
    if "os_exec os del (world s) = (None, w1) \<and> os_exec os mk w1 = (None, w2) \<and>
        os_exec os (SaveTo (HttpFile name body) p) w2 = (Some e, w3)"
    for w1 w2 w3 e
    using that
    by (simp add: sh seq_def call_def ok_def)
  show ?thesis
    using first first_http link_fails copy_fails save_fails by blast
qed

lemma toy_remove_dest:
  "faults (Remove report_dest) = None \<Longrightarrow>
   os_exec (toy_os faults) (Remove report_dest) (world (start old_world)) = (None, src_world)"
  by (simp add: toy_os_def toy_exec_def start_def old_world_def src_world_def report_dest_def)

lemma toy_makedirs:
  "faults (Makedirs d m) = None \<Longrightarrow> os_exec (toy_os faults) (Makedirs d m) w = (None, w)"
  by (simp add: toy_os_def toy_exec_def)

lemma toy_save_raises:
  "os_exec (toy_os (save_raises e)) (SaveTo (HttpFile ''report.pdf'' ''abcdef'') report_dest)
     src_world =
     (Some e, [(report_dest, Regular ''abc''), (''/tmp/report.pdf'', Regular ''new'')])"
  by (simp add: toy_os_def toy_exec_def save_raises_def toy_write_def src_world_def
      report_dest_def)

text \<open>
  The destination holds \<^verbatim>\<open>old\<close>. With rewriting on and a link that raises
  \<^verbatim>\<open>EPERM\<close>, the run ends after remove, makedirs and link, and the destination is
  gone. With a streamed save that breaks off, the destination holds the first half of
  the upload.
\<close>

theorem rewrite_deletes_first_and_is_not_undone_witness:
  "store_file ascii_only (toy_os (link_raises (OSError 1))) srv bucket42 id1234
     ''/tmp/report.pdf'' None True (start old_world) =
     (Inl (Raised (OSError 1)),
      \<lparr>world = src_world,
         calls = [Remove report_dest, Makedirs ''/srv/files/42/W6/XX'' 493,
                  Link ''/tmp/report.pdf'' report_dest]\<rparr>) \<and>
   toy_content old_world report_dest = ''old'' \<and>
   \<not> os_path_exists (toy_os (link_raises (OSError 1))) src_world report_dest \<and>
   store_http_file ascii_only (toy_os (save_raises (OtherException ''reset''))) srv bucket42
     id1234 (HttpFile ''report.pdf'' ''abcdef'') True (start old_world) =
     (Inl (Raised (OtherException ''reset'')),
      \<lparr>world = [(report_dest, Regular ''abc''), (''/tmp/report.pdf'', Regular ''new'')],
         calls = [Remove report_dest, Makedirs ''/srv/files/42/W6/XX'' 493,
                  SaveTo (HttpFile ''report.pdf'' ''abcdef'') report_dest]\<rparr>)"
proof -
  have nm: "(case None of None \<Rightarrow> basename ''/tmp/report.pdf'' | Some n \<Rightarrow> n) = ''report.pdf''"
    by (simp add: basename_tmp_report)
  have um: "511 - umask srv = 493"
    by (simp add: srv_def)
  have ne: "OSError 1 \<noteq> OSError EXDEV"
    by (simp add: EXDEV_def)
  note inst = rewrite_deletes_first_and_is_not_undone
    [OF file_path_report old_world_tests(3) refl refl old_world_tests(1) nm]
  have link: "store_file ascii_only (toy_os (link_raises (OSError 1))) srv bucket42 id1234
     ''/tmp/report.pdf'' None True (start old_world) =
     (Inl (Raised (OSError 1)),
      \<lparr>world = src_world,
         calls = calls (start old_world) @
           [Remove report_dest, Makedirs ''/srv/files/42/W6/XX'' 493,
            Link ''/tmp/report.pdf'' report_dest]\<rparr>)"
    using inst [of ascii_only "link_raises (OSError 1)", THEN conjunct2, THEN conjunct2,
        THEN conjunct1, rule_format, of src_world src_world "OSError 1" src_world] ne
    by (simp add: old_world_tests toy_remove_dest toy_makedirs toy_link_raises link_raises_def
        dirname_report_dest um)
  have save: "store_http_file ascii_only (toy_os (save_raises (OtherException ''reset''))) srv
     bucket42 id1234 (HttpFile ''report.pdf'' ''abcdef'') True (start old_world) =
     (Inl (Raised (OtherException ''reset'')),
      \<lparr>world = [(report_dest, Regular ''abc''), (''/tmp/report.pdf'', Regular ''new'')],
         calls = calls (start old_world) @
           [Remove report_dest, Makedirs ''/srv/files/42/W6/XX'' 493,
            SaveTo (HttpFile ''report.pdf'' ''abcdef'') report_dest]\<rparr>)"
    using inst [of ascii_only "save_raises (OtherException ''reset'')", THEN conjunct2,
        THEN conjunct2, THEN conjunct2, THEN conjunct2, rule_format,
        of src_world src_world "''abcdef''" "OtherException ''reset''"
           "[(report_dest, Regular ''abc''), (''/tmp/report.pdf'', Regular ''new'')]"]
    by (simp add: old_world_tests toy_remove_dest toy_makedirs toy_save_raises save_raises_def
        dirname_report_dest um)
  have old: "toy_content old_world report_dest = ''old''"
    by (simp add: toy_content_def old_world_def report_dest_def)
  have gone: "\<not> os_path_exists (toy_os (link_raises (OSError 1))) src_world report_dest"
    by (simp add: toy_os_def src_world_def report_dest_def)
  from link save old gone show ?thesis
    by (simp add: start_def)
qed

section \<open>Permission bits\<close>

text \<open>
  The code passes \<^verbatim>\<open>0o777 - umask\<close> and \<^verbatim>\<open>0o666 - umask\<close>. For a umask between 0 and
  \<^verbatim>\<open>0o777\<close> the first is \<^verbatim>\<open>0o777 & ~umask\<close>.
\<close>

lemma dir_mode_is_masked:
  assumes "0 \<le> u" and "u \<le> 511"
  shows "(511 :: int) - u = 511 AND NOT u"
proof -
  have "(511 :: int) AND NOT u = take_bit 9 (NOT u)"
    by (simp add: take_bit_eq_mask mask_eq_exp_minus_1 and.commute)
  also have "\<dots> = (- u - 1) mod 512"
    by (simp add: take_bit_eq_mod not_int_def)
  also have "\<dots> = (511 - u) mod 512"
  proof -
    have "(511 - u) mod 512 = (- u - 1 + 512) mod 512" by simp
    also have "\<dots> = (- u - 1) mod 512" by (rule mod_add_self2)
    finally show ?thesis by simp
  qed
  also have "\<dots> = 511 - u"
    using assms by simp
  finally show ?thesis by simp
qed

lemma call_ok:
  "fst (os_exec os c (world s)) = None \<Longrightarrow>
   call os c s = (Inr (), \<lparr>world = snd (os_exec os c (world s)), calls = calls s @ [c]\<rparr>)"
  by (cases "os_exec os c (world s)") (simp add: call_def)

text \<open>
  C4, at the umask \<^verbatim>\<open>0o077\<close> (63). Both store operations make the shard directory with
  mode 448, which is \<^verbatim>\<open>0o700 = 0o777 & ~0o077\<close>, but give the stored file the mode
  375, which is \<^verbatim>\<open>0o567 = 0o666 - 0o077\<close>, where \<^verbatim>\<open>0o666 & ~0o077\<close> is
  \<^verbatim>\<open>0o600\<close> (384).
\<close>

theorem umask_is_subtracted:
  "calls (snd (store_file ascii_only (toy_os no_faults) srv077 bucket42 id1234
                 ''/tmp/report.pdf'' None False (start src_world))) =
     [Makedirs ''/srv/files/42/W6/XX'' 448, Link ''/tmp/report.pdf'' report_dest,
      Chmod report_dest 375] \<and>
   calls (snd (store_http_file ascii_only (toy_os no_faults) srv077 bucket42 id1234
                 (HttpFile ''report.pdf'' ''new'') False (start src_world))) =
     [Makedirs ''/srv/files/42/W6/XX'' 448,
      SaveTo (HttpFile ''report.pdf'' ''new'') report_dest, Chmod report_dest 375] \<and>
   (511 :: int) AND NOT 63 = 448 \<and>
   (438 :: int) AND NOT 63 = 384"
proof -
  have ne: "\<not> os_path_exists (toy_os no_faults) (world (start src_world)) report_dest"
    by (simp add: toy_os_def start_def src_world_def report_dest_def)
  have isf: "os_path_isfile (toy_os no_faults) (world (start src_world)) ''/tmp/report.pdf''"
    by (simp add: toy_os_def start_def src_world_def)
  have pj: "path_join (path srv077)
              ''42/W6/XX/12345678123456781234567812345678_report.pdf'' = report_dest"
    by (simp add: path_join_def report_dest_def srv077_def)
  have um: "511 - umask srv077 = 448" "438 - umask srv077 = 375"
    by (simp_all add: srv077_def)
  have ex: "fst (os_exec (toy_os no_faults) c w) = None" for c w
    by (simp add: toy_os_def toy_exec_def no_faults_def)
  have gp: "get_path ascii_only (toy_os no_faults) srv077 bucket42 id1234
              ''report.pdf'' False (start src_world) =
            (Inr report_dest,
             \<lparr>world = snd (os_exec (toy_os no_faults) (Makedirs ''/srv/files/42/W6/XX'' 448)
                             (world (start src_world))),
                calls = calls (start src_world) @ [Makedirs ''/srv/files/42/W6/XX'' 448]\<rparr>)"
    by (simp add: get_path_def escape_report base_name_report pj ne seq_def ok_def
        call_ok [OF ex] dirname_report_dest um)
  have a: "calls (snd (store_file ascii_only (toy_os no_faults) srv077 bucket42
                 id1234 ''/tmp/report.pdf'' None False (start src_world))) =
     calls (start src_world) @
     [Makedirs ''/srv/files/42/W6/XX'' 448, Link ''/tmp/report.pdf'' report_dest,
      Chmod report_dest 375]"
    by (simp add: store_file_def isf basename_tmp_report seq_def gp link_or_copy_def
        after_save_def call_ok [OF ex] um)
  have b: "calls (snd (store_http_file ascii_only (toy_os no_faults) srv077 bucket42
                 id1234 (HttpFile ''report.pdf'' ''new'') False (start src_world))) =
     calls (start src_world) @
     [Makedirs ''/srv/files/42/W6/XX'' 448,
      SaveTo (HttpFile ''report.pdf'' ''new'') report_dest, Chmod report_dest 375]"
    by (simp add: store_http_file_def seq_def gp after_save_def call_ok [OF ex] um)
  have c: "(511 :: int) AND NOT 63 = 448" by simp
  have d: "(438 :: int) AND NOT 63 = 384" by simp
  from a b c d show ?thesis by (simp add: start_def)
qed

section \<open>Further properties\<close>

lemma get_path_last_call:
  assumes "get_path uw os be bkt ident name allow_rewrite s = (Inr p, s')"
  shows "\<exists>cs. calls s' = cs @ [Makedirs (dirname p) (511 - umask be)]"
proof (cases "get_base_name bkt ident (escape_filename uw name)")
  case (Inl e)
  with assms show ?thesis
    by (simp add: get_path_def raise_def)
next
  case (Inr base)
  let ?p = "path_join (path be) base"
  let ?first = "if os_path_exists os (world s) ?p then
                     (if allow_rewrite then
                        (if os_path_islink os (world s) ?p then call os (Unlink ?p)
                         else call os (Remove ?p))
                      else raise (BackendError (FileNamesCollision ?p)))
                   else ok ()"
  obtain r t where f: "?first s = (r, t)"
    by (cases "?first s")
  have run: "get_path uw os be bkt ident name allow_rewrite s =
               seq ?first (\<lambda>_. seq (call os (Makedirs (dirname ?p) (511 - umask be)))
                                 (\<lambda>_. ok ?p)) s"
    by (simp add: get_path_def Inr Let_def)
  show ?thesis
  proof (cases r)
    case (Inl e)
    with assms run f show ?thesis
      by (simp add: seq_def)
  next
    case (Inr v)
    with assms run f have
      "seq (call os (Makedirs (dirname ?p) (511 - umask be))) (\<lambda>_. ok ?p) t = (Inr p, s')"
      by (simp add: seq_def)
    then have "p = ?p \<and> s' = snd (call os (Makedirs (dirname ?p) (511 - umask be)) t)"
      by (auto simp: seq_def ok_def split: prod.splits sum.splits)
    then have "calls s' = calls t @ [Makedirs (dirname p) (511 - umask be)]"
      by (simp add: calls_after_call)
    then show ?thesis by blast
  qed
qed

text \<open>
  X1. For a umask between 0 and \<^verbatim>\<open>0o777\<close>, the directories are made with the mode
  \<^verbatim>\<open>0o777 & ~umask\<close>: the last call of a path resolution that succeeds is
  \<^verbatim>\<open>os.makedirs\<close> of the parent directory with that mode, and the construction of a
  backend whose root is missing, with auto-create on, calls \<^verbatim>\<open>os.mkdir\<close> of the root
  with that mode and nothing else.
\<close>

theorem directories_get_masked_mode:
  assumes "0 \<le> umask be" and "umask be \<le> 511"
    and "0 \<le> (case umask_cfg of None \<Rightarrow> node_umask | Some u \<Rightarrow> u)"
    and "(case umask_cfg of None \<Rightarrow> node_umask | Some u \<Rightarrow> u) \<le> 511"
  shows "(get_path uw os be bkt ident name allow_rewrite s = (Inr p, s') \<longrightarrow>
            (\<exists>cs. calls s' = cs @ [Makedirs (dirname p) (511 AND NOT (umask be))])) \<and>
         (\<not> os_path_exists os (world s) (os_path_abspath os (world s) path_arg) \<longrightarrow>
            new_calls s (snd (init_backend os True umask_cfg node_umask path_arg pub s)) =
              [Mkdir (os_path_abspath os (world s) path_arg)
                 (511 AND NOT (case umask_cfg of None \<Rightarrow> node_umask | Some u \<Rightarrow> u))])"
proof (rule conjI; rule impI)
  assume "get_path uw os be bkt ident name allow_rewrite s = (Inr p, s')"
  then show "\<exists>cs. calls s' = cs @ [Makedirs (dirname p) (511 AND NOT (umask be))]"
    using get_path_last_call dir_mode_is_masked [OF assms(1,2)] by fastforce
next
  let ?um = "case umask_cfg of None \<Rightarrow> node_umask | Some u \<Rightarrow> u"
  let ?p = "os_path_abspath os (world s) path_arg"
  assume ne: "\<not> os_path_exists os (world s) ?p"
  have "calls (snd (init_backend os True umask_cfg node_umask path_arg pub s)) =
          calls s @ [Mkdir ?p (511 - ?um)]"
    using ne
    by (auto simp: init_backend_def Let_def seq_def call_def ok_def raise_def
        split: prod.splits sum.splits option.splits)
  then show "new_calls s (snd (init_backend os True umask_cfg node_umask path_arg pub s)) =
              [Mkdir ?p (511 AND NOT ?um)]"
    using dir_mode_is_masked [OF assms(3,4)] by (simp add: new_calls_def)
qed

text \<open>The shard directory of the example, and a root made under the umask \<^verbatim>\<open>0o077\<close>.\<close>

theorem directories_get_masked_mode_witness:
  "(\<exists>cs. calls \<lparr>world = src_world, calls = [Makedirs ''/srv/files/42/W6/XX'' 493]\<rparr> =
           cs @ [Makedirs (dirname report_dest) (511 AND NOT (umask srv))]) \<and>
   new_calls (start []) (snd (init_backend (toy_os no_faults) True (Some 63) 18 ''/srv/files''
                                ''http://cdn/files'' (start []))) =
     [Mkdir ''/srv/files'' 448]"
proof -
  have u: "0 \<le> umask srv" "umask srv \<le> 511"
    by (simp_all add: srv_def)
  have c: "0 \<le> (case Some 63 of None \<Rightarrow> 18 | Some u \<Rightarrow> (u :: int))"
    "(case Some 63 of None \<Rightarrow> 18 | Some u \<Rightarrow> (u :: int)) \<le> 511"
    by simp_all
  have gp: "get_path ascii_only (toy_os no_faults) srv bucket42 id1234 ''report.pdf'' False
              (start src_world) =
            (Inr report_dest,
             \<lparr>world = src_world, calls = [Makedirs ''/srv/files/42/W6/XX'' 493]\<rparr>)"
    by (simp add: toy_get_path_fresh no_faults_def)
  have ne: "\<not> os_path_exists (toy_os no_faults) (world (start []))
              (os_path_abspath (toy_os no_faults) (world (start [])) ''/srv/files'')"
    by (simp add: toy_os_def start_def)
  have ab: "os_path_abspath (toy_os no_faults) (world (start [])) ''/srv/files'' = ''/srv/files''"
    by (simp add: toy_os_def path_join_def)
  from directories_get_masked_mode [OF u c, where os = "toy_os no_faults"
      and s = "start src_world" and uw = ascii_only and bkt = bucket42 and ident = id1234
      and name = "''report.pdf''" and allow_rewrite = False and p = report_dest
      and s' = "\<lparr>world = src_world, calls = [Makedirs ''/srv/files/42/W6/XX'' 493]\<rparr>"] gp
  have one: "\<exists>cs. calls \<lparr>world = src_world, calls = [Makedirs ''/srv/files/42/W6/XX'' 493]\<rparr> =
           cs @ [Makedirs (dirname report_dest) (511 AND NOT (umask srv))]"
    by blast
  from directories_get_masked_mode [OF u c, where os = "toy_os no_faults" and s = "start []"
      and path_arg = "''/srv/files''" and pub = "''http://cdn/files''"] ne
  have two: "new_calls (start []) (snd (init_backend (toy_os no_faults) True (Some 63) 18
                ''/srv/files'' ''http://cdn/files'' (start []))) = [Mkdir ''/srv/files'' 448]"
    by (simp add: ab)
  from one two show ?thesis by blast
qed

text \<open>
  X2. Whatever a construction, a path resolution or a store operation returns, the log
  it leaves is the log it found with calls added, and the world it leaves is the world
  it found after exactly these calls.
\<close>

theorem operations_change_world_only_by_logged_calls:
  "extends os s (snd (init_backend os auto_create_path umask_cfg node_umask path_arg pub s)) \<and>
   extends os s (snd (get_path uw os be bkt ident name allow_rewrite s)) \<and>
   extends os s (snd (store_file uw os be bkt ident filename nm allow_rewrite s)) \<and>
   extends os s (snd (store_http_file uw os be bkt ident upl allow_rewrite s))"
  by (simp add: extends_init_backend extends_get_path extends_store_file
      extends_store_http_file)

text \<open>
  X3. Constructing a backend whose root exists returns the backend, with the absolute
  root, the public root and the resolved umask, and calls nothing. Constructing one
  whose root is missing, with auto-create off, fails with
  \<^verbatim>\<open>unable to create directory\<close> and calls nothing.
\<close>

theorem backend_construction:
  "(os_path_exists os (world s) (os_path_abspath os (world s) path_arg) \<longrightarrow>
      (\<exists>be. init_backend os auto_create_path umask_cfg node_umask path_arg pub s = (Inr be, s) \<and>
            path be = os_path_abspath os (world s) path_arg \<and> pub_path be = pub \<and>
            umask be = (case umask_cfg of None \<Rightarrow> node_umask | Some u \<Rightarrow> u))) \<and>
   (\<not> os_path_exists os (world s) (os_path_abspath os (world s) path_arg) \<longrightarrow>
      init_backend os False umask_cfg node_umask path_arg pub s =
        (Inl (BackendError (UnableToCreateDirectory (os_path_abspath os (world s) path_arg))), s))"
  by (simp add: init_backend_def Let_def ok_def raise_def seq_def)

text \<open>A missing root with auto-create off.\<close>

theorem backend_construction_witness:
  "init_backend (toy_os no_faults) False None 18 ''/srv/files'' ''http://cdn/files'' (start []) =
     (Inl (BackendError (UnableToCreateDirectory ''/srv/files'')), start [])"
  using backend_construction [where os = "toy_os no_faults" and s = "start []"
      and path_arg = "''/srv/files''" and umask_cfg = None and node_umask = 18
      and pub = "''http://cdn/files''"]
  by (simp add: toy_os_def start_def path_join_def)

end
